theory Spec2Isabelle
  imports Complex_Main
begin

section \<open>Values of the policy engine\<close>

text \<open>
  The policy engine of the wallet (package \<open>app.policy_engine\<close>): rules read an open
  configuration dictionary, return a \<open>PolicyDecision\<close>, and the executor aggregates the
  decisions of all rules into one \<open>ExecutionResult\<close>.

  A configuration dictionary is \<open>dict[str, Any]\<close>. Its values are modelled as the scalars
  a JSON document holds. A float is modelled by the rational number that its \<open>str\<close>
  denotes; the rounding of float arithmetic is not modelled.
\<close>

datatype pyval = VNone | VBool bool | VInt int | VDec rat | VStr string

type_synonym config = "string \<rightharpoonup> pyval"

text \<open>The exceptions the modelled code can raise.\<close>

datatype exn = TypeError | InvalidOperation | Overflow | OtherError string

text \<open>Python's truth value of an object, as \<open>if x:\<close> and \<open>not x\<close> test it.\<close>

fun truthy :: "pyval \<Rightarrow> bool" where
  "truthy VNone = False"
| "truthy (VBool b) = b"
| "truthy (VInt i) = (i \<noteq> 0)"
| "truthy (VDec r) = (r \<noteq> 0)"
| "truthy (VStr s) = (s \<noteq> [])"

text \<open>The numeric value of a Python number; \<open>bool\<close> is a subclass of \<open>int\<close>.\<close>

fun num_of :: "pyval \<Rightarrow> rat option" where
  "num_of (VBool b) = Some (if b then 1 else 0)"
| "num_of (VInt i) = Some (of_int i)"
| "num_of (VDec r) = Some r"
| "num_of VNone = None"
| "num_of (VStr s) = None"

text \<open>Strings compare lexicographically by code point.\<close>

fun str_lt :: "string \<Rightarrow> string \<Rightarrow> bool" where
  "str_lt [] [] = False"
| "str_lt [] (d # t) = True"
| "str_lt (c # s) [] = False"
| "str_lt (c # s) (d # t) =
     (if (of_char c :: nat) < of_char d then True
      else if (of_char d :: nat) < of_char c then False
      else str_lt s t)"

text \<open>
  \<open>a < b\<close> and \<open>a <= b\<close>: numbers compare by value, strings with strings, and every other
  pair of operands raises \<open>TypeError\<close>.
\<close>

definition py_lt :: "pyval \<Rightarrow> pyval \<Rightarrow> exn + bool" where
  "py_lt a b =
     (case (num_of a, num_of b) of
        (Some x, Some y) \<Rightarrow> Inr (x < y)
      | _ \<Rightarrow> (case (a, b) of
                (VStr s, VStr t) \<Rightarrow> Inr (str_lt s t)
              | _ \<Rightarrow> Inl TypeError))"

definition py_le :: "pyval \<Rightarrow> pyval \<Rightarrow> exn + bool" where
  "py_le a b =
     (case (num_of a, num_of b) of
        (Some x, Some y) \<Rightarrow> Inr (x \<le> y)
      | _ \<Rightarrow> (case (a, b) of
                (VStr s, VStr t) \<Rightarrow> Inr (\<not> str_lt t s)
              | _ \<Rightarrow> Inl TypeError))"

definition py_gt :: "pyval \<Rightarrow> pyval \<Rightarrow> exn + bool" where
  "py_gt a b = py_lt b a"

definition py_ge :: "pyval \<Rightarrow> pyval \<Rightarrow> exn + bool" where
  "py_ge a b = py_le b a"

text \<open>
  \<open>v * k\<close> for an integer literal \<open>k\<close>: the product of numbers, the repetition of a
  string, \<open>TypeError\<close> on \<open>None\<close>.
\<close>

fun py_mul_int :: "pyval \<Rightarrow> int \<Rightarrow> exn + pyval" where
  "py_mul_int (VInt i) k = Inr (VInt (i * k))"
| "py_mul_int (VBool b) k = Inr (VInt ((if b then 1 else 0) * k))"
| "py_mul_int (VDec r) k = Inr (VDec (r * of_int k))"
| "py_mul_int (VStr s) k = Inr (VStr (concat (replicate (nat k) s)))"
| "py_mul_int VNone k = Inl TypeError"

text \<open>\<open>v + k\<close> and \<open>v - k\<close> for an integer \<open>k\<close>.\<close>

fun py_add_int :: "pyval \<Rightarrow> int \<Rightarrow> exn + pyval" where
  "py_add_int (VInt i) k = Inr (VInt (i + k))"
| "py_add_int (VBool b) k = Inr (VInt ((if b then 1 else 0) + k))"
| "py_add_int (VDec r) k = Inr (VDec (r + of_int k))"
| "py_add_int (VStr s) k = Inl TypeError"
| "py_add_int VNone k = Inl TypeError"

definition py_sub_int :: "pyval \<Rightarrow> int \<Rightarrow> exn + pyval" where
  "py_sub_int v k = py_add_int v (- k)"

subsection \<open>Decimals\<close>

text \<open>
  A \<open>Decimal\<close> is a finite decimal number, an infinity or a NaN. Finite decimals are
  modelled as rationals. The constructor and the comparisons of decimals are exact. Sums
  and differences are not: the library rounds them to the precision of its context (28
  significant digits by default), so they are taken from the library, as parameters of
  the model (below). The amounts of a transaction are finite.
\<close>

datatype decimal = Fin rat | PInf | MInf | NaN

text \<open>\<open>x > d\<close> for a finite amount \<open>x\<close>: an ordering comparison with NaN raises.\<close>

fun amount_gt :: "rat \<Rightarrow> decimal \<Rightarrow> exn + bool" where
  "amount_gt x (Fin y) = Inr (x > y)"
| "amount_gt x PInf = Inr False"
| "amount_gt x MInf = Inr True"
| "amount_gt x NaN = Inl InvalidOperation"

text \<open>\<open>max(d, Decimal('0'))\<close>: the second argument is taken when it is greater.\<close>

fun max_zero :: "decimal \<Rightarrow> exn + decimal" where
  "max_zero (Fin y) = Inr (if 0 > y then Fin 0 else Fin y)"
| "max_zero PInf = Inr PInf"
| "max_zero MInf = Inr (Fin 0)"
| "max_zero NaN = Inl InvalidOperation"

subsection \<open>Library functions taken as parameters\<close>

text \<open>
  A \<open>datetime\<close> is read through its hour (0 to 23) and its weekday (0 is Monday, 6 is
  Sunday) only.
\<close>

record datetime =
  hour :: int
  weekday :: int

text \<open>
  Four library functions are parameters of the model: the constructor of a \<open>Decimal\<close>
  from a string (\<open>None\<close> where it raises \<open>InvalidOperation\<close>); the sum \<open>x + y\<close> and the
  difference \<open>x - y\<close> of two finite decimals, rounded to the precision of the decimal
  context (\<open>Inl\<close> where the library raises, as it does on overflow); and the conversion of
  a time into the zone a configuration value names, \<open>ZoneInfo(tz)\<close> followed by
  \<open>astimezone\<close> (\<open>None\<close> where either raises).
\<close>

record pylib =
  decimal_of_str :: "string \<Rightarrow> decimal option"
  decimal_add :: "rat \<Rightarrow> rat \<Rightarrow> exn + rat"
  decimal_sub :: "rat \<Rightarrow> rat \<Rightarrow> exn + rat"
  astimezone :: "pyval \<Rightarrow> datetime \<Rightarrow> datetime option"

text \<open>\<open>d - x\<close> for a finite amount \<open>x\<close>: an infinity and a NaN stay what they are.\<close>

fun decimal_minus :: "pylib \<Rightarrow> decimal \<Rightarrow> rat \<Rightarrow> exn + decimal" where
  "decimal_minus L (Fin y) x =
     (case decimal_sub L y x of Inl e \<Rightarrow> Inl e | Inr z \<Rightarrow> Inr (Fin z))"
| "decimal_minus L PInf x = Inr PInf"
| "decimal_minus L MInf x = Inr MInf"
| "decimal_minus L NaN x = Inr NaN"

text \<open>\<open>Decimal(str(v))\<close>: \<open>str(None)\<close> is \<open>'None'\<close> and \<open>str(True)\<close> is \<open>'True'\<close>, which are no numbers.\<close>

fun to_decimal :: "pylib \<Rightarrow> pyval \<Rightarrow> exn + decimal" where
  "to_decimal L (VInt i) = Inr (Fin (of_int i))"
| "to_decimal L (VDec r) = Inr (Fin r)"
| "to_decimal L (VStr s) =
     (case decimal_of_str L s of Some d \<Rightarrow> Inr d | None \<Rightarrow> Inl InvalidOperation)"
| "to_decimal L VNone = Inl InvalidOperation"
| "to_decimal L (VBool b) = Inl InvalidOperation"

section \<open>Contexts, decisions and rules (rules/base.py, executor.py)\<close>

datatype DecisionType = ALLOW | BLOCK | DELAY | REQUIRE_2FA | WARN

record TransactionContext =
  chain :: string
  to_address :: string
  value_native :: rat
  value_usd :: rat
  data :: "string option"
  user_id :: string
  user_tier :: string
  daily_outflow_usd :: rat
  is_new_address :: bool
  address_in_whitelist :: bool
  current_time :: datetime
  user_timezone :: string
  duress_mode_active :: bool
  biometric_verified :: bool
  is_contract_call :: bool
  contract_verified :: bool
  function_name :: "string option"

record PolicyContext =
  transaction :: TransactionContext
  ctx_user_tier :: string
  ctx_current_time :: datetime
  recent_transactions :: "config list"
  whitelist :: "string list"

text \<open>
  The reason of a decision is an f-string. It is modelled by its template and the values
  interpolated into it; the rendering of the numbers is not modelled.
\<close>

datatype reason_text =
    NoReason
  | PerTxLimit rat decimal
  | DailyLimit decimal
  | DelayAbove decimal pyval
  | NotInWhitelist string
  | Quarantine pyval
  | TwoFaNewAddress
  | WeekendBlock
  | HourBlock pyval pyval pyval pyval
  | ReasonText string

record PolicyDecision =
  allowed :: bool
  require_2fa :: bool
  delay_seconds :: pyval
  warnings :: "string list"
  required_actions :: "string list"
  reason :: reason_text

text \<open>The factories of \<open>PolicyDecision\<close>.\<close>

definition PolicyDecision_allow :: "string list \<Rightarrow> PolicyDecision" where
  "PolicyDecision_allow ws =
     \<lparr>allowed = True, require_2fa = False, delay_seconds = VNone, warnings = ws,
      required_actions = [], reason = NoReason\<rparr>"

definition PolicyDecision_block :: "reason_text \<Rightarrow> PolicyDecision" where
  "PolicyDecision_block rs =
     \<lparr>allowed = False, require_2fa = False, delay_seconds = VNone, warnings = [],
      required_actions = [], reason = rs\<rparr>"

definition PolicyDecision_delay :: "pyval \<Rightarrow> reason_text \<Rightarrow> PolicyDecision" where
  "PolicyDecision_delay seconds rs =
     \<lparr>allowed = True, require_2fa = False, delay_seconds = seconds, warnings = [],
      required_actions = [], reason = rs\<rparr>"

definition PolicyDecision_require_verification :: "string \<Rightarrow> PolicyDecision" where
  "PolicyDecision_require_verification action =
     \<lparr>allowed = True, require_2fa = True, delay_seconds = VNone, warnings = [],
      required_actions = [action], reason = NoReason\<rparr>"

record ExecutionResult =
  decision :: DecisionType
  blocking_rule :: "string option"
  result_delay_seconds :: pyval
  result_warnings :: "string list"
  result_required_actions :: "string list"
  rules_evaluated :: "string list"

text \<open>
  \<open>ExecutionResult.__post_init__\<close>: a DELAY without a delay gets 24 hours. The field
  \<open>evaluation_time_ms\<close> is wall-clock time and is left out.
\<close>

definition post_init :: "ExecutionResult \<Rightarrow> ExecutionResult" where
  "post_init r =
     (if decision r = DELAY \<and> \<not> truthy (result_delay_seconds r)
      then r\<lparr>result_delay_seconds := VInt 86400\<rparr> else r)"

text \<open>Sequencing of steps that may raise: the first exception is the outcome.\<close>

definition exn_bind :: "exn + 'a \<Rightarrow> ('a \<Rightarrow> exn + 'b) \<Rightarrow> exn + 'b" where
  "exn_bind m f = (case m of Inl e \<Rightarrow> Inl e | Inr v \<Rightarrow> f v)"

section \<open>VelocityRule (rules/velocity.py)\<close>

text \<open>
  \<open>Decimal(str(self.config.get(key, float("inf"))))\<close>: an absent key is the limit
  \<open>Infinity\<close>.
\<close>

definition limit_of :: "pylib \<Rightarrow> config \<Rightarrow> string \<Rightarrow> exn + decimal" where
  "limit_of L cfg key = (case cfg key of None \<Rightarrow> Inr PInf | Some v \<Rightarrow> to_decimal L v)"

text \<open>\<open>self.config.get(key)\<close> and \<open>self.config.get(key, default)\<close>.\<close>

definition get :: "config \<Rightarrow> string \<Rightarrow> pyval" where
  "get cfg key = (case cfg key of None \<Rightarrow> VNone | Some v \<Rightarrow> v)"

definition get_default :: "config \<Rightarrow> string \<Rightarrow> pyval \<Rightarrow> pyval" where
  "get_default cfg key dflt = (case cfg key of None \<Rightarrow> dflt | Some v \<Rightarrow> v)"

definition velocity_evaluate :: "pylib \<Rightarrow> config \<Rightarrow> PolicyContext \<Rightarrow> exn + PolicyDecision" where
  "velocity_evaluate L cfg context =
     (let tx = transaction context in
      exn_bind (limit_of L cfg ''max_daily_usd'') (\<lambda>max_daily.
      exn_bind (limit_of L cfg ''max_per_tx_usd'') (\<lambda>max_per_tx.
      let require_2fa_above = get cfg ''require_2fa_above_usd'';
          delay_above = get cfg ''delay_hours_above_usd'' in
      exn_bind (amount_gt (value_usd tx) max_per_tx) (\<lambda>over_per_tx.
      if over_per_tx
      then Inr (PolicyDecision_block (PerTxLimit (value_usd tx) max_per_tx))
      else
      exn_bind (decimal_add L (daily_outflow_usd tx) (value_usd tx)) (\<lambda>projected_daily.
      exn_bind (amount_gt projected_daily max_daily) (\<lambda>over_daily.
      if over_daily
      then exn_bind (decimal_minus L max_daily (daily_outflow_usd tx)) (\<lambda>remaining.
           exn_bind (max_zero remaining) (\<lambda>shown.
           Inr (PolicyDecision_block (DailyLimit shown))))
      else
      exn_bind
        (if delay_above \<noteq> VNone
         then exn_bind (to_decimal L delay_above) (\<lambda>delay_threshold.
              exn_bind (amount_gt (value_usd tx) delay_threshold) (\<lambda>over_delay.
              if over_delay
              then (let delay_hours = get_default cfg ''delay_hours'' (VInt 24) in
                    exn_bind (py_mul_int delay_hours 3600) (\<lambda>seconds.
                    Inr (Some (PolicyDecision_delay seconds
                                 (DelayAbove delay_threshold delay_hours)))))
              else Inr None))
         else Inr None) (\<lambda>delayed.
      case delayed of
        Some d \<Rightarrow> Inr d
      | None \<Rightarrow>
      exn_bind
        (if require_2fa_above \<noteq> VNone
         then exn_bind (to_decimal L require_2fa_above) (\<lambda>twofa_threshold.
              exn_bind (amount_gt (value_usd tx) twofa_threshold) (\<lambda>over_2fa.
              if over_2fa
              then Inr (Some (PolicyDecision_require_verification ''2fa_required''))
              else Inr None))
         else Inr None) (\<lambda>verified.
      case verified of
        Some d \<Rightarrow> Inr d
      | None \<Rightarrow> Inr (PolicyDecision_allow [])))))))))"

section \<open>WhitelistRule (rules/whitelist.py)\<close>

definition whitelist_evaluate :: "config \<Rightarrow> PolicyContext \<Rightarrow> exn + PolicyDecision" where
  "whitelist_evaluate cfg context =
     (let tx = transaction context;
          mode = get_default cfg ''mode'' (VStr ''warn_unknown'');
          require_2fa_new = get_default cfg ''require_2fa_for_new'' (VBool False);
          quarantine_hours = get cfg ''quarantine_hours_for_new'';
          is_whitelisted = address_in_whitelist tx;
          is_new = is_new_address tx in
      if is_whitelisted then Inr (PolicyDecision_allow [])
      else if is_new then
        (if mode = VStr ''block_unknown''
         then Inr (PolicyDecision_block (NotInWhitelist (take 10 (to_address tx))))
         else
         let new_warnings =
               [''This is a new address not in your whitelist: '' @ take 10 (to_address tx)
                  @ ''...''] in
         if truthy quarantine_hours
         then exn_bind (py_mul_int quarantine_hours 3600) (\<lambda>seconds.
              Inr \<lparr>allowed = True, require_2fa = False, delay_seconds = seconds,
                   warnings = new_warnings, required_actions = [],
                   reason = Quarantine quarantine_hours\<rparr>)
         else if truthy require_2fa_new
         then Inr \<lparr>allowed = True, require_2fa = True, delay_seconds = VNone,
                   warnings = new_warnings, required_actions = [''2fa_required''],
                   reason = TwoFaNewAddress\<rparr>
         else Inr (PolicyDecision_allow new_warnings))
      else Inr (PolicyDecision_allow
                  [''Consider adding frequently used addresses to your whitelist'']))"

section \<open>TimelockRule (rules/timelock.py)\<close>

definition is_in_blocked_period :: "int \<Rightarrow> pyval \<Rightarrow> pyval \<Rightarrow> exn + bool" where
  "is_in_blocked_period current start end_h =
     exn_bind (py_le start end_h) (\<lambda>normal.
     if normal
     then exn_bind (py_le start (VInt current)) (\<lambda>after_start.
          if after_start then py_lt (VInt current) end_h else Inr False)
     else exn_bind (py_ge (VInt current) start) (\<lambda>after_start.
          if after_start then Inr True else py_lt (VInt current) end_h))"

text \<open>
  The time of the context in the configured zone; the context's own time when the zone
  name is not valid.
\<close>

definition local_time :: "pylib \<Rightarrow> config \<Rightarrow> PolicyContext \<Rightarrow> datetime" where
  "local_time L cfg context =
     (let timezone_str = get_default cfg ''timezone'' (VStr ''UTC'') in
      case astimezone L timezone_str (ctx_current_time context) of
        Some t \<Rightarrow> t
      | None \<Rightarrow> ctx_current_time context)"

definition timelock_evaluate :: "pylib \<Rightarrow> config \<Rightarrow> PolicyContext \<Rightarrow> exn + PolicyDecision" where
  "timelock_evaluate L cfg context =
     (let start_hour = get cfg ''block_start_hour'';
          end_hour = get cfg ''block_end_hour'';
          timezone_str = get_default cfg ''timezone'' (VStr ''UTC'');
          block_weekends = get_default cfg ''block_weekends'' (VBool False);
          current = local_time L cfg context;
          current_hour = hour current;
          current_weekday = weekday current in
      if truthy block_weekends \<and> current_weekday \<ge> 5
      then Inr (PolicyDecision_block WeekendBlock)
      else if start_hour \<noteq> VNone \<and> end_hour \<noteq> VNone
      then exn_bind (is_in_blocked_period current_hour start_hour end_hour) (\<lambda>is_blocked.
           if is_blocked
           then exn_bind (py_gt end_hour (VInt current_hour)) (\<lambda>later.
                exn_bind (if later then py_sub_int end_hour current_hour
                          else py_add_int end_hour (24 - current_hour)) (\<lambda>hours_until.
                Inr (PolicyDecision_block
                       (HourBlock start_hour end_hour timezone_str hours_until))))
           else Inr (PolicyDecision_allow []))
      else Inr (PolicyDecision_allow []))"

section \<open>Rules and their dispatch (rules/base.py)\<close>

text \<open>
  A rule is an instance of a subclass of \<open>PolicyRule\<close>. The three classes of the package
  are constructors; any other subclass is given by its \<open>evaluate\<close>, a function of the
  instance's fields and the context.
\<close>

datatype rule_class =
    VelocityRule
  | WhitelistRule
  | TimelockRule
  | OtherRule "string \<Rightarrow> config \<Rightarrow> int \<Rightarrow> PolicyContext \<Rightarrow> exn + PolicyDecision"

record PolicyRule =
  name :: string
  config :: config
  priority :: int
  rule_class :: rule_class

definition evaluate :: "pylib \<Rightarrow> PolicyRule \<Rightarrow> PolicyContext \<Rightarrow> exn + PolicyDecision" where
  "evaluate L rule context =
     (case rule_class rule of
        VelocityRule \<Rightarrow> velocity_evaluate L (config rule) context
      | WhitelistRule \<Rightarrow> whitelist_evaluate (config rule) context
      | TimelockRule \<Rightarrow> timelock_evaluate L (config rule) context
      | OtherRule f \<Rightarrow> f (name rule) (config rule) (priority rule) context)"

section \<open>PolicyExecutor (executor.py)\<close>

subsection \<open>Loading rules\<close>

text \<open>
  A policy record is a dictionary with the keys \<open>rule_type: str\<close>, \<open>name\<close>,
  \<open>config: dict\<close>, \<open>priority: int\<close> and \<open>is_active: bool\<close>, each of which may be absent.
\<close>

record policy =
  rule_type :: "string option"
  policy_name :: "string option"
  policy_config :: "config option"
  policy_priority :: "int option"
  is_active :: "bool option"

type_synonym rule_registry = "string \<rightharpoonup> rule_class"

text \<open>The loop of \<open>load_rules_from_config\<close>, appending to \<open>self.rules\<close>.\<close>

fun load_loop :: "rule_registry \<Rightarrow> policy list \<Rightarrow> PolicyRule list \<Rightarrow> PolicyRule list" where
  "load_loop reg [] rules = rules"
| "load_loop reg (p # ps) rules =
     (if \<not> (case is_active p of None \<Rightarrow> True | Some b \<Rightarrow> b) then load_loop reg ps rules
      else case rule_type p of
        None \<Rightarrow> load_loop reg ps rules
      | Some t \<Rightarrow>
          (case reg t of
             None \<Rightarrow> load_loop reg ps rules
           | Some rule_cls \<Rightarrow>
               load_loop reg ps
                 (rules @
                  [\<lparr>name = (case policy_name p of None \<Rightarrow> t | Some n \<Rightarrow> n),
                    config = (case policy_config p of None \<Rightarrow> Map.empty | Some c \<Rightarrow> c),
                    priority = (case policy_priority p of None \<Rightarrow> 0 | Some i \<Rightarrow> i),
                    rule_class = rule_cls\<rparr>])))"

text \<open>
  \<open>self.rules.sort(key=lambda r: r.priority, reverse=True)\<close>: Python's sort is stable,
  also with \<open>reverse=True\<close>: the rules come in descending priority, and rules of equal
  priority keep their order.
\<close>

definition sort_rules :: "PolicyRule list \<Rightarrow> PolicyRule list" where
  "sort_rules rules = sort_key (\<lambda>r. - priority r) rules"

definition load_rules_from_config :: "rule_registry \<Rightarrow> policy list \<Rightarrow> PolicyRule list" where
  "load_rules_from_config reg policies = sort_rules (load_loop reg policies [])"

subsection \<open>Aggregation\<close>

text \<open>The local variables of \<open>_aggregate_decisions\<close>.\<close>

record agg_state =
  final_decision :: DecisionType
  st_blocking_rule :: "string option"
  st_delay_seconds :: pyval
  all_warnings :: "string list"
  all_actions :: "string list"
  st_rules_evaluated :: "string list"

text \<open>The three appends at the head of the loop body.\<close>

definition agg_append :: "agg_state \<Rightarrow> PolicyRule \<Rightarrow> PolicyDecision \<Rightarrow> agg_state" where
  "agg_append st rule dec =
     st\<lparr>st_rules_evaluated := st_rules_evaluated st @ [name rule],
        all_warnings := all_warnings st @ warnings dec,
        all_actions := all_actions st @ required_actions dec\<rparr>"

text \<open>One iteration of the loop over the decisions.\<close>

definition agg_step :: "agg_state \<Rightarrow> PolicyRule \<times> PolicyDecision \<Rightarrow> exn + agg_state" where
  "agg_step st0 rd =
     (let rule = fst rd; dec = snd rd;
          st = agg_append st0 rule dec in
      if \<not> allowed dec then
        (if final_decision st \<noteq> BLOCK
         then Inr (st\<lparr>final_decision := BLOCK, st_blocking_rule := Some (name rule)\<rparr>)
         else Inr st)
      else if truthy (delay_seconds dec) then
        (if final_decision st \<noteq> BLOCK
         then exn_bind (if st_delay_seconds st = VNone then Inr True
                        else py_gt (delay_seconds dec) (st_delay_seconds st)) (\<lambda>longer.
              if longer
              then Inr (st\<lparr>final_decision := DELAY, st_delay_seconds := delay_seconds dec,
                           st_blocking_rule := Some (name rule)\<rparr>)
              else Inr (st\<lparr>final_decision := DELAY\<rparr>))
         else Inr st)
      else if require_2fa dec then
        (if final_decision st \<noteq> BLOCK \<and> final_decision st \<noteq> DELAY
         then Inr (st\<lparr>final_decision := REQUIRE_2FA,
                      all_actions := all_actions st @ [''2fa_required'']\<rparr>)
         else Inr st)
      else if warnings dec \<noteq> [] then
        (if final_decision st = ALLOW then Inr (st\<lparr>final_decision := WARN\<rparr>) else Inr st)
      else Inr st)"

fun agg_loop :: "agg_state \<Rightarrow> (PolicyRule \<times> PolicyDecision) list \<Rightarrow> exn + agg_state" where
  "agg_loop st [] = Inr st"
| "agg_loop st (rd # rds) = exn_bind (agg_step st rd) (\<lambda>st'. agg_loop st' rds)"

definition agg_init :: agg_state where
  "agg_init =
     \<lparr>final_decision = ALLOW, st_blocking_rule = None, st_delay_seconds = VNone,
      all_warnings = [], all_actions = [], st_rules_evaluated = []\<rparr>"

text \<open>
  \<open>list(set(xs))\<close> holds each element of \<open>xs\<close> once, in an order that Python leaves to the
  hashes of the strings. \<open>remdups\<close> is one such order; the statements below read these
  lists through \<open>set\<close> and \<open>distinct\<close> only.
\<close>

definition aggregate_decisions ::
  "(PolicyRule \<times> PolicyDecision) list \<Rightarrow> exn + ExecutionResult" where
  "aggregate_decisions decisions =
     exn_bind (agg_loop agg_init decisions) (\<lambda>st.
     Inr (post_init
            \<lparr>decision = final_decision st,
             blocking_rule = st_blocking_rule st,
             result_delay_seconds = st_delay_seconds st,
             result_warnings = remdups (all_warnings st),
             result_required_actions = remdups (all_actions st),
             rules_evaluated = st_rules_evaluated st\<rparr>))"

subsection \<open>Execution\<close>

text \<open>The context that \<open>execute\<close> builds for every rule.\<close>

definition context_of :: "TransactionContext \<Rightarrow> PolicyContext" where
  "context_of tx =
     \<lparr>transaction = tx, ctx_user_tier = user_tier tx, ctx_current_time = current_time tx,
      recent_transactions = [], whitelist = []\<rparr>"

text \<open>
  The loop of \<open>execute\<close> over the rules: it returns the collected decisions, or the
  result of the \<open>except\<close> branch at the first rule that raises.
\<close>

fun collect ::
  "pylib \<Rightarrow> PolicyRule list \<Rightarrow> TransactionContext \<Rightarrow> (PolicyRule \<times> PolicyDecision) list
   \<Rightarrow> ExecutionResult + (PolicyRule \<times> PolicyDecision) list" where
  "collect L [] tx decisions = Inr decisions"
| "collect L (rule # rules) tx decisions =
     (case evaluate L rule (context_of tx) of
        Inr dec \<Rightarrow> collect L rules tx (decisions @ [(rule, dec)])
      | Inl e \<Rightarrow>
          Inl (post_init
                 \<lparr>decision = BLOCK,
                  blocking_rule = Some (name rule @ '' (evaluation error)''),
                  result_delay_seconds = VNone,
                  result_warnings = [],
                  result_required_actions = [],
                  rules_evaluated = map (\<lambda>rd. name (fst rd)) decisions @ [name rule]\<rparr>))"

text \<open>\<open>execute\<close>: \<open>Inl\<close> is an exception that leaves the call.\<close>

definition execute ::
  "pylib \<Rightarrow> PolicyRule list \<Rightarrow> TransactionContext \<Rightarrow> exn + ExecutionResult" where
  "execute L rules tx =
     (if duress_mode_active tx
      then Inr (post_init
                  \<lparr>decision = ALLOW, blocking_rule = None, result_delay_seconds = VNone,
                   result_warnings = [''DURESS_MODE_ACTIVE''],
                   result_required_actions = [],
                   rules_evaluated = [''duress_intercept'']\<rparr>)
      else case collect L rules tx [] of
             Inl failed \<Rightarrow> Inr failed
           | Inr decisions \<Rightarrow> aggregate_decisions decisions)"

section \<open>PolicyEvaluator (evaluator.py)\<close>

definition evaluator_registry :: rule_registry where
  "evaluator_registry =
     [''velocity'' \<mapsto> VelocityRule, ''whitelist'' \<mapsto> WhitelistRule,
      ''timelock'' \<mapsto> TimelockRule]"

text \<open>
  The \<open>TransactionContext\<close> that \<open>evaluate_transaction\<close> builds from its arguments;
  \<open>now\<close> is \<open>datetime.utcnow()\<close>.
\<close>

definition evaluator_context ::
  "datetime \<Rightarrow> string \<Rightarrow> string \<Rightarrow> string \<Rightarrow> string \<Rightarrow> rat \<Rightarrow> rat \<Rightarrow> bool \<Rightarrow> bool \<Rightarrow> bool
   \<Rightarrow> bool \<Rightarrow> TransactionContext" where
  "evaluator_context now uid tier chn addr usd outflow is_new contract_call verified duress =
     \<lparr>chain = chn, to_address = addr, value_native = 0, value_usd = usd, data = None,
      user_id = uid, user_tier = tier, daily_outflow_usd = outflow,
      is_new_address = is_new, address_in_whitelist = (\<not> is_new), current_time = now,
      user_timezone = ''UTC'', duress_mode_active = duress, biometric_verified = False,
      is_contract_call = contract_call, contract_verified = verified,
      function_name = None\<rparr>"

definition evaluate_transaction ::
  "pylib \<Rightarrow> datetime \<Rightarrow> string \<Rightarrow> string \<Rightarrow> policy list \<Rightarrow> string \<Rightarrow> string \<Rightarrow> rat \<Rightarrow> rat
   \<Rightarrow> bool \<Rightarrow> bool \<Rightarrow> bool \<Rightarrow> bool \<Rightarrow> exn + ExecutionResult" where
  "evaluate_transaction L now uid tier policies chn addr usd outflow is_new contract_call
     verified duress =
     execute L (load_rules_from_config evaluator_registry policies)
       (evaluator_context now uid tier chn addr usd outflow is_new contract_call verified
          duress)"

section \<open>Notions used in the statements\<close>

text \<open>
  What one decision asks for, by the branch of the aggregation loop that it takes: it
  blocks, it delays, it asks for 2FA, or it warns.
\<close>

definition blocks :: "PolicyRule \<times> PolicyDecision \<Rightarrow> bool" where
  "blocks rd = (\<not> allowed (snd rd))"

definition delays :: "PolicyRule \<times> PolicyDecision \<Rightarrow> bool" where
  "delays rd = (allowed (snd rd) \<and> truthy (delay_seconds (snd rd)))"

definition asks_2fa :: "PolicyRule \<times> PolicyDecision \<Rightarrow> bool" where
  "asks_2fa rd =
     (allowed (snd rd) \<and> \<not> truthy (delay_seconds (snd rd)) \<and> require_2fa (snd rd))"

definition warns :: "PolicyRule \<times> PolicyDecision \<Rightarrow> bool" where
  "warns rd =
     (allowed (snd rd) \<and> \<not> truthy (delay_seconds (snd rd)) \<and> \<not> require_2fa (snd rd)
      \<and> warnings (snd rd) \<noteq> [])"

text \<open>The verdict of a list of decisions: the most restrictive thing one of them asks for.\<close>

definition verdict :: "(PolicyRule \<times> PolicyDecision) list \<Rightarrow> DecisionType" where
  "verdict ds =
     (if \<exists>rd\<in>set ds. blocks rd then BLOCK
      else if \<exists>rd\<in>set ds. delays rd then DELAY
      else if \<exists>rd\<in>set ds. asks_2fa rd then REQUIRE_2FA
      else if \<exists>rd\<in>set ds. warns rd then WARN
      else ALLOW)"

text \<open>
  The loop adds \<open>2fa_required\<close> when a decision asks for 2FA and no earlier decision
  blocks or delays.
\<close>

definition adds_2fa :: "(PolicyRule \<times> PolicyDecision) list \<Rightarrow> bool" where
  "adds_2fa ds =
     (\<exists>rd\<in>set (takeWhile (\<lambda>rd. \<not> blocks rd \<and> \<not> delays rd) ds). asks_2fa rd)"

text \<open>
  The delay that the loop holds while no decision blocks: nothing when no decision
  delays, else the greatest non-zero delay, attributed to the first rule that asks for it.
\<close>

definition longest_delay :: "(PolicyRule \<times> PolicyDecision) list \<Rightarrow> pyval \<Rightarrow> string option \<Rightarrow> bool" where
  "longest_delay ds secs rule_name =
     (if \<exists>rd\<in>set ds. delays rd
      then \<exists>m. m \<noteq> 0 \<and> secs = VInt m
             \<and> (\<forall>rd\<in>set ds. \<forall>n. delay_seconds (snd rd) = VInt n \<longrightarrow> n \<noteq> 0 \<longrightarrow> n \<le> m)
             \<and> (\<exists>rd0. find (\<lambda>rd. delay_seconds (snd rd) = VInt m) ds = Some rd0
                   \<and> rule_name = Some (name (fst rd0)))
      else secs = VNone \<and> rule_name = None)"

text \<open>The declared type of \<open>delay_seconds\<close>: \<open>int | None\<close>.\<close>

fun int_or_none :: "pyval \<Rightarrow> bool" where
  "int_or_none VNone = True"
| "int_or_none (VInt n) = True"
| "int_or_none (VBool b) = False"
| "int_or_none (VDec r) = False"
| "int_or_none (VStr s) = False"

text \<open>The state of the aggregation loop after the decisions \<open>ds\<close>.\<close>

definition agg_inv :: "(PolicyRule \<times> PolicyDecision) list \<Rightarrow> agg_state \<Rightarrow> bool" where
  "agg_inv ds st =
     (st_rules_evaluated st = map (\<lambda>rd. name (fst rd)) ds
      \<and> all_warnings st = concat (map (\<lambda>rd. warnings (snd rd)) ds)
      \<and> set (all_actions st) =
          (\<Union>rd\<in>set ds. set (required_actions (snd rd)))
          \<union> (if adds_2fa ds then {''2fa_required''} else {})
      \<and> final_decision st = verdict ds
      \<and> int_or_none (st_delay_seconds st)
      \<and> ((\<exists>rd\<in>set ds. blocks rd) \<longrightarrow>
           st_blocking_rule st = map_option (\<lambda>rd. name (fst rd)) (find blocks ds))
      \<and> ((\<forall>rd\<in>set ds. \<not> blocks rd) \<longrightarrow>
           longest_delay ds (st_delay_seconds st) (st_blocking_rule st)))"

text \<open>The order of restrictiveness: ALLOW, WARN, REQUIRE_2FA, DELAY, BLOCK.\<close>

fun restrictiveness :: "DecisionType \<Rightarrow> nat" where
  "restrictiveness ALLOW = 0"
| "restrictiveness WARN = 1"
| "restrictiveness REQUIRE_2FA = 2"
| "restrictiveness DELAY = 3"
| "restrictiveness BLOCK = 4"

text \<open>
  The rule that a policy record gives: none when the record is not active or its
  \<open>rule_type\<close> is not registered; else an instance of the registered class with the
  record's name, config and priority.
\<close>

definition loaded :: "rule_registry \<Rightarrow> policy \<Rightarrow> PolicyRule option" where
  "loaded reg p =
     (if is_active p = Some False then None
      else case rule_type p of
        None \<Rightarrow> None
      | Some t \<Rightarrow>
          (case reg t of
             None \<Rightarrow> None
           | Some rule_cls \<Rightarrow>
               Some \<lparr>name = (case policy_name p of None \<Rightarrow> t | Some n \<Rightarrow> n),
                     config = (case policy_config p of None \<Rightarrow> Map.empty | Some c \<Rightarrow> c),
                     priority = (case policy_priority p of None \<Rightarrow> 0 | Some i \<Rightarrow> i),
                     rule_class = rule_cls\<rparr>))"

text \<open>The value of a configuration entry that is a JSON number.\<close>

fun number :: "pyval \<Rightarrow> rat option" where
  "number (VInt i) = Some (of_int i)"
| "number (VDec r) = Some r"
| "number VNone = None"
| "number (VBool b) = None"
| "number (VStr s) = None"

text \<open>The amount \<open>x\<close> exceeds the decimal \<open>d\<close>, for a \<open>d\<close> that is no NaN.\<close>

definition above :: "rat \<Rightarrow> decimal \<Rightarrow> bool" where
  "above x d = (case d of Fin y \<Rightarrow> y < x | PInf \<Rightarrow> False | MInf \<Rightarrow> True | NaN \<Rightarrow> False)"

text \<open>What one decision asks for, as a decision type.\<close>

definition asks :: "PolicyRule \<times> PolicyDecision \<Rightarrow> DecisionType" where
  "asks rd =
     (if blocks rd then BLOCK
      else if delays rd then DELAY
      else if asks_2fa rd then REQUIRE_2FA
      else if warns rd then WARN
      else ALLOW)"

text \<open>
  What the evaluation of a rule asks for: a rule that raises is a block, by the \<open>except\<close>
  branch of \<open>execute\<close>.
\<close>

definition outcome :: "PolicyRule \<Rightarrow> exn + PolicyDecision \<Rightarrow> DecisionType" where
  "outcome rule e = (case e of Inl x \<Rightarrow> BLOCK | Inr d \<Rightarrow> asks (rule, d))"

text \<open>
  A rule of one of the three classes of the package whose configuration is well formed:
  the limits and thresholds of a velocity rule, where present, are numbers, and its
  \<open>delay_hours\<close> is absent or an integer that is not zero; the quarantine hours of a
  whitelist rule are absent, \<open>None\<close> or an integer.
\<close>

definition limit_ok :: "config \<Rightarrow> string \<Rightarrow> bool" where
  "limit_ok cfg key = (case cfg key of None \<Rightarrow> True | Some x \<Rightarrow> number x \<noteq> None)"

definition threshold_ok :: "config \<Rightarrow> string \<Rightarrow> bool" where
  "threshold_ok cfg key =
     (case cfg key of None \<Rightarrow> True | Some VNone \<Rightarrow> True | Some x \<Rightarrow> number x \<noteq> None)"

definition delay_hours_ok :: "config \<Rightarrow> bool" where
  "delay_hours_ok cfg =
     (case cfg ''delay_hours'' of None \<Rightarrow> True | Some (VInt h) \<Rightarrow> h \<noteq> 0 | Some x \<Rightarrow> False)"

definition quarantine_ok :: "config \<Rightarrow> bool" where
  "quarantine_ok cfg =
     (case cfg ''quarantine_hours_for_new'' of None \<Rightarrow> True | Some x \<Rightarrow> int_or_none x)"

definition well_configured :: "PolicyRule \<Rightarrow> bool" where
  "well_configured rule =
     (case rule_class rule of
        VelocityRule \<Rightarrow>
          limit_ok (config rule) ''max_daily_usd''
          \<and> limit_ok (config rule) ''max_per_tx_usd''
          \<and> threshold_ok (config rule) ''delay_hours_above_usd''
          \<and> threshold_ok (config rule) ''require_2fa_above_usd''
          \<and> delay_hours_ok (config rule)
      | WhitelistRule \<Rightarrow> quarantine_ok (config rule)
      | TimelockRule \<Rightarrow> True
      | OtherRule f \<Rightarrow> False)"

section \<open>Example inputs\<close>

text \<open>
  A library whose \<open>Decimal\<close> constructor reads no string, whose sums and differences
  are exact (the amounts of the examples have few digits) and whose zone conversion
  leaves the time as it is (UTC), and a transaction of 5000 USD to a new address.
\<close>

definition example_lib :: pylib where
  "example_lib =
     \<lparr>decimal_of_str = (\<lambda>s. None), decimal_add = (\<lambda>x y. Inr (x + y)),
      decimal_sub = (\<lambda>x y. Inr (x - y)), astimezone = (\<lambda>z t. Some t)\<rparr>"

text \<open>
  A library that knows two zones: UTC, and Tokyo, nine hours ahead of it; every other
  zone name is not valid.
\<close>

definition example_zones :: pylib where
  "example_zones =
     \<lparr>decimal_of_str = (\<lambda>s. None), decimal_add = (\<lambda>x y. Inr (x + y)),
      decimal_sub = (\<lambda>x y. Inr (x - y)),
      astimezone = (\<lambda>z t.
        if z = VStr ''UTC'' then Some t
        else if z = VStr ''Asia/Tokyo''
        then Some \<lparr>hour = (hour t + 9) mod 24,
                    weekday = (if 24 \<le> hour t + 9 then (weekday t + 1) mod 7 else weekday t)\<rparr>
        else None)\<rparr>"

text \<open>A timelock from 22:00 to 07:00 in the zone of Tokyo.\<close>

definition example_night_tokyo :: config where
  "example_night_tokyo =
     [''block_start_hour'' \<mapsto> VInt 22, ''block_end_hour'' \<mapsto> VInt 7,
      ''timezone'' \<mapsto> VStr ''Asia/Tokyo'']"

definition example_tx :: TransactionContext where
  "example_tx =
     \<lparr>chain = ''ethereum'', to_address = ''0x742d35Cc6634'', value_native = 1,
      value_usd = 5000, data = None, user_id = ''user123'', user_tier = ''humpback'',
      daily_outflow_usd = 10000, is_new_address = True, address_in_whitelist = False,
      current_time = \<lparr>hour = 12, weekday = 2\<rparr>, user_timezone = ''UTC'',
      duress_mode_active = False, biometric_verified = False, is_contract_call = False,
      contract_verified = False, function_name = None\<rparr>"

definition example_velocity :: PolicyRule where
  "example_velocity =
     \<lparr>name = ''Velocity'', config = [''max_per_tx_usd'' \<mapsto> VInt 1000], priority = 10,
      rule_class = VelocityRule\<rparr>"

definition example_whitelist :: PolicyRule where
  "example_whitelist =
     \<lparr>name = ''Whitelist'', config = [''mode'' \<mapsto> VStr ''warn_unknown''], priority = 5,
      rule_class = WhitelistRule\<rparr>"

text \<open>A velocity rule whose daily limit is \<open>true\<close>: \<open>Decimal('True')\<close> raises.\<close>

definition example_broken :: PolicyRule where
  "example_broken =
     \<lparr>name = ''Broken'', config = [''max_daily_usd'' \<mapsto> VBool True], priority = 1,
      rule_class = VelocityRule\<rparr>"

text \<open>A delay of one hour by the first rule, then a block by the second.\<close>

definition example_decisions :: "(PolicyRule \<times> PolicyDecision) list" where
  "example_decisions =
     [(example_velocity, PolicyDecision_delay (VInt 3600) NoReason),
      (example_whitelist, PolicyDecision_block (NotInWhitelist ''0x742d35Cc''))]"

text \<open>
  Four policy records: a whitelist rule that is not active, a rule of a type that is not
  registered, a velocity rule of priority 1 and a whitelist rule of priority 5.
\<close>

definition example_policies :: "policy list" where
  "example_policies =
     [\<lparr>rule_type = Some ''whitelist'', policy_name = Some ''Off'',
       policy_config = None, policy_priority = Some 9, is_active = Some False\<rparr>,
      \<lparr>rule_type = Some ''gas'', policy_name = Some ''Gas'',
       policy_config = None, policy_priority = Some 7, is_active = Some True\<rparr>,
      \<lparr>rule_type = Some ''velocity'', policy_name = Some ''Velocity'',
       policy_config = Some [''max_per_tx_usd'' \<mapsto> VInt 25000], policy_priority = Some 1,
       is_active = None\<rparr>,
      \<lparr>rule_type = Some ''whitelist'', policy_name = None,
       policy_config = Some [''mode'' \<mapsto> VStr ''warn_unknown''], policy_priority = Some 5,
       is_active = Some True\<rparr>]"

text \<open>The configuration of the velocity rule in the unit tests.\<close>

definition example_limits :: config where
  "example_limits =
     [''max_daily_usd'' \<mapsto> VInt 50000, ''max_per_tx_usd'' \<mapsto> VInt 25000,
      ''require_2fa_above_usd'' \<mapsto> VInt 10000]"

text \<open>A whitelist configuration with a quarantine of zero hours and 2FA for new addresses.\<close>

definition example_zero_quarantine :: config where
  "example_zero_quarantine =
     [''mode'' \<mapsto> VStr ''warn_unknown'', ''quarantine_hours_for_new'' \<mapsto> VInt 0,
      ''require_2fa_for_new'' \<mapsto> VBool True]"

text \<open>The whitelist configuration of the unit tests: a quarantine of 24 hours.\<close>

definition example_quarantine :: config where
  "example_quarantine =
     [''mode'' \<mapsto> VStr ''warn_unknown'', ''quarantine_hours_for_new'' \<mapsto> VInt 24]"

text \<open>A timelock from 22:00 to 07:00, as in the recommended policies.\<close>

definition example_night :: config where
  "example_night = [''block_start_hour'' \<mapsto> VInt 22, ''block_end_hour'' \<mapsto> VInt 7]"

text \<open>A velocity rule with 2FA above 500 USD and a delay of zero hours above 1000 USD.\<close>

definition example_zero_delay :: PolicyRule where
  "example_zero_delay =
     \<lparr>name = ''Zero delay'',
      config = [''require_2fa_above_usd'' \<mapsto> VInt 500, ''delay_hours_above_usd'' \<mapsto> VInt 1000,
                ''delay_hours'' \<mapsto> VInt 0],
      priority = 10, rule_class = VelocityRule\<rparr>"

text \<open>The velocity rule of the unit tests.\<close>

definition example_limited :: PolicyRule where
  "example_limited =
     \<lparr>name = ''Test Velocity'', config = example_limits, priority = 10,
      rule_class = VelocityRule\<rparr>"


text \<open>A weekend block in the zone of Tokyo.\<close>

definition example_weekend_tokyo :: config where
  "example_weekend_tokyo =
     [''block_weekends'' \<mapsto> VBool True, ''timezone'' \<mapsto> VStr ''Asia/Tokyo'']"

text \<open>A timelock from 22:00 to 07:00 in a zone that no library knows.\<close>

definition example_night_nowhere :: config where
  "example_night_nowhere =
     [''block_start_hour'' \<mapsto> VInt 22, ''block_end_hour'' \<mapsto> VInt 7,
      ''timezone'' \<mapsto> VStr ''Nowhere'']"

section \<open>Properties\<close>

lemma exn_bind_simps [simp]:
  "exn_bind (Inl e) f = Inl e"
  "exn_bind (Inr v) f = f v"
  by (simp_all add: exn_bind_def)

subsection \<open>Duress mode\<close>

text \<open>
  Claim C1. When \<open>duress_mode_active\<close> is set, \<open>execute\<close> returns ALLOW with the single
  warning \<open>DURESS_MODE_ACTIVE\<close> and the audit trail \<open>duress_intercept\<close>, whatever the
  configured rules are: the result does not depend on the rules, so none of them is
  evaluated.
\<close>

theorem duress_short_circuit:
  "duress_mode_active tx \<Longrightarrow>
   execute L rules tx =
     Inr \<lparr>decision = ALLOW, blocking_rule = None, result_delay_seconds = VNone,
          result_warnings = [''DURESS_MODE_ACTIVE''], result_required_actions = [],
          rules_evaluated = [''duress_intercept'']\<rparr>"
  by (simp add: execute_def post_init_def)

text \<open>
  The case of the unit test: a per-transaction limit of 1000 USD, a transaction of 50000
  USD, duress mode active.
\<close>

theorem duress_short_circuit_witness:
  "duress_mode_active (example_tx\<lparr>value_usd := 50000, duress_mode_active := True\<rparr>)
   \<and> execute example_lib [example_velocity]
        (example_tx\<lparr>value_usd := 50000, duress_mode_active := True\<rparr>) =
     Inr \<lparr>decision = ALLOW, blocking_rule = None, result_delay_seconds = VNone,
          result_warnings = [''DURESS_MODE_ACTIVE''], result_required_actions = [],
          rules_evaluated = [''duress_intercept'']\<rparr>"
proof -
  have h: "duress_mode_active (example_tx\<lparr>value_usd := 50000, duress_mode_active := True\<rparr>)"
    by simp
  show ?thesis using h duress_short_circuit [OF h] by - (intro conjI, assumption+)
qed

subsection \<open>Failing closed\<close>

text \<open>Rules that return are collected; the loop goes on with the rest.\<close>

lemma collect_all_ok:
  "\<forall>p\<in>set pre. \<exists>d. evaluate L p (context_of tx) = Inr d \<Longrightarrow>
   collect L (pre @ rest) tx acc =
     collect L rest tx (acc @ map (\<lambda>p. (p, projr (evaluate L p (context_of tx)))) pre)"
proof (induction pre arbitrary: acc)
  case Nil
  show ?case by simp
next
  case (Cons p pre)
  from Cons.prems obtain d where d: "evaluate L p (context_of tx) = Inr d" by auto
  from Cons.prems have rest: "\<forall>q\<in>set pre. \<exists>d. evaluate L q (context_of tx) = Inr d" by simp
  have "collect L ((p # pre) @ rest) tx acc = collect L (pre @ rest) tx (acc @ [(p, d)])"
    by (simp add: d)
  also have "\<dots> = collect L rest tx ((acc @ [(p, d)]) @
      map (\<lambda>p. (p, projr (evaluate L p (context_of tx)))) pre)"
    by (rule Cons.IH [OF rest])
  also have "(acc @ [(p, d)]) @ map (\<lambda>p. (p, projr (evaluate L p (context_of tx)))) pre =
      acc @ map (\<lambda>p. (p, projr (evaluate L p (context_of tx)))) (p # pre)"
    by (simp add: d)
  finally show ?case .
qed

lemma execute_first_error:
  assumes nd: "\<not> duress_mode_active tx"
    and ok: "\<forall>p\<in>set pre. \<exists>d. evaluate L p (context_of tx) = Inr d"
    and bad: "evaluate L f (context_of tx) = Inl e"
  shows "execute L (pre @ f # post) tx =
     Inr \<lparr>decision = BLOCK, blocking_rule = Some (name f @ '' (evaluation error)''),
          result_delay_seconds = VNone, result_warnings = [], result_required_actions = [],
          rules_evaluated = map name pre @ [name f]\<rparr>"
proof -
  let ?ds = "map (\<lambda>p. (p, projr (evaluate L p (context_of tx)))) pre"
  have names: "map (\<lambda>rd. name (fst rd)) ?ds = map name pre"
    by (simp add: comp_def)
  have "collect L (pre @ f # post) tx [] = collect L (f # post) tx ([] @ ?ds)"
    by (rule collect_all_ok [OF ok])
  then have "collect L (pre @ f # post) tx [] =
      Inl \<lparr>decision = BLOCK, blocking_rule = Some (name f @ '' (evaluation error)''),
          result_delay_seconds = VNone, result_warnings = [], result_required_actions = [],
          rules_evaluated = map name pre @ [name f]\<rparr>"
    by (simp add: bad names post_init_def)
  then show ?thesis
    by (simp add: execute_def nd)
qed

text \<open>
  Claim C2. Without duress, if some rule raises, then the rules split at the first rule
  \<open>f\<close> that raises, and \<open>execute\<close> returns BLOCK with \<open>blocking_rule\<close> the name of \<open>f\<close>
  followed by \<open>(evaluation error)\<close> and with \<open>rules_evaluated\<close> the names of the rules up
  to and including \<open>f\<close>, whatever the rules before \<open>f\<close> decided.
\<close>

theorem fail_closed:
  assumes nd: "\<not> duress_mode_active tx"
    and mem: "r \<in> set rules"
    and bad: "evaluate L r (context_of tx) = Inl e"
  shows "\<exists>pre f post. rules = pre @ f # post
     \<and> (\<forall>p\<in>set pre. \<exists>d. evaluate L p (context_of tx) = Inr d)
     \<and> (\<exists>e'. evaluate L f (context_of tx) = Inl e')
     \<and> execute L rules tx =
         Inr \<lparr>decision = BLOCK, blocking_rule = Some (name f @ '' (evaluation error)''),
              result_delay_seconds = VNone, result_warnings = [],
              result_required_actions = [],
              rules_evaluated = map name pre @ [name f]\<rparr>"
proof -
  let ?P = "\<lambda>q. \<exists>e'. evaluate L q (context_of tx) = Inl e'"
  from mem bad have "\<exists>q\<in>set rules. ?P q" by blast
  then obtain pre f post where
    sp: "rules = pre @ f # post" "?P f" "\<forall>p\<in>set pre. \<not> ?P p"
    by (auto simp: split_list_first_prop_iff)
  have ok: "\<forall>p\<in>set pre. \<exists>d. evaluate L p (context_of tx) = Inr d"
  proof
    fix p assume "p \<in> set pre"
    with sp(3) have "\<not> ?P p" by blast
    then show "\<exists>d. evaluate L p (context_of tx) = Inr d"
      by (cases "evaluate L p (context_of tx)") auto
  qed
  from sp(2) obtain e' where e': "evaluate L f (context_of tx) = Inl e'" by blast
  from execute_first_error [OF nd ok e', of post] sp ok e' show ?thesis by blast
qed

lemma example_whitelist_ok:
  "evaluate example_lib example_whitelist (context_of example_tx) =
     Inr (PolicyDecision_allow
       [''This is a new address not in your whitelist: 0x742d35Cc...''])"
  by (simp add: evaluate_def example_whitelist_def whitelist_evaluate_def context_of_def
      example_tx_def get_def get_default_def)

lemma example_broken_raises:
  "evaluate example_lib example_broken (context_of example_tx) = Inl InvalidOperation"
  by (simp add: evaluate_def example_broken_def velocity_evaluate_def limit_of_def)

text \<open>
  A whitelist rule that allows with a warning, then a velocity rule whose configuration
  does not parse: the result is BLOCK and names the second rule.
\<close>

theorem fail_closed_witness:
  "\<not> duress_mode_active example_tx
   \<and> example_broken \<in> set [example_whitelist, example_broken]
   \<and> evaluate example_lib example_broken (context_of example_tx) = Inl InvalidOperation
   \<and> (\<exists>pre f post. [example_whitelist, example_broken] = pre @ f # post
       \<and> (\<forall>p\<in>set pre. \<exists>d. evaluate example_lib p (context_of example_tx) = Inr d)
       \<and> (\<exists>e'. evaluate example_lib f (context_of example_tx) = Inl e')
       \<and> execute example_lib [example_whitelist, example_broken] example_tx =
           Inr \<lparr>decision = BLOCK,
                blocking_rule = Some (name f @ '' (evaluation error)''),
                result_delay_seconds = VNone, result_warnings = [],
                result_required_actions = [],
                rules_evaluated = map name pre @ [name f]\<rparr>)"
proof -
  have h1: "\<not> duress_mode_active example_tx" by (simp add: example_tx_def)
  have h2: "example_broken \<in> set [example_whitelist, example_broken]" by simp
  note h3 = example_broken_raises
  note h4 = fail_closed [OF h1 h2 h3]
  show ?thesis using h1 h2 h3 h4 by - (intro conjI, assumption+)
qed

subsection \<open>Aggregation\<close>

lemma py_gt_int [simp]: "py_gt (VInt n) (VInt m) = Inr (m < n)"
  by (simp add: py_gt_def py_lt_def)

lemma int_or_none_cases: "int_or_none v \<Longrightarrow> v = VNone \<or> (\<exists>n. v = VInt n)"
  by (cases v) auto

lemma agg_step_blocks:
  "\<not> allowed d \<Longrightarrow>
   agg_step st (r, d) =
     Inr (if final_decision st \<noteq> BLOCK
          then (agg_append st r d)\<lparr>final_decision := BLOCK, st_blocking_rule := Some (name r)\<rparr>
          else agg_append st r d)"
  by (simp add: agg_step_def agg_append_def Let_def)

lemma agg_step_delays:
  "allowed d \<Longrightarrow> delay_seconds d = VInt n \<Longrightarrow> n \<noteq> 0 \<Longrightarrow> int_or_none (st_delay_seconds st) \<Longrightarrow>
   agg_step st (r, d) =
     Inr (if final_decision st = BLOCK then agg_append st r d
          else if st_delay_seconds st = VNone \<or> (\<exists>m. st_delay_seconds st = VInt m \<and> m < n)
          then (agg_append st r d)\<lparr>final_decision := DELAY, st_delay_seconds := VInt n,
                 st_blocking_rule := Some (name r)\<rparr>
          else (agg_append st r d)\<lparr>final_decision := DELAY\<rparr>)"
  by (cases "st_delay_seconds st") (simp_all add: agg_step_def agg_append_def Let_def)

lemma agg_step_asks_2fa:
  "allowed d \<Longrightarrow> \<not> truthy (delay_seconds d) \<Longrightarrow> require_2fa d \<Longrightarrow>
   agg_step st (r, d) =
     Inr (if final_decision st \<noteq> BLOCK \<and> final_decision st \<noteq> DELAY
          then (agg_append st r d)\<lparr>final_decision := REQUIRE_2FA,
                 all_actions := all_actions (agg_append st r d) @ [''2fa_required'']\<rparr>
          else agg_append st r d)"
  by (simp add: agg_step_def agg_append_def Let_def)

lemma agg_step_warns:
  "allowed d \<Longrightarrow> \<not> truthy (delay_seconds d) \<Longrightarrow> \<not> require_2fa d \<Longrightarrow> warnings d \<noteq> [] \<Longrightarrow>
   agg_step st (r, d) =
     Inr (if final_decision st = ALLOW then (agg_append st r d)\<lparr>final_decision := WARN\<rparr>
          else agg_append st r d)"
  by (simp add: agg_step_def agg_append_def Let_def)

lemma agg_step_plain:
  "allowed d \<Longrightarrow> \<not> truthy (delay_seconds d) \<Longrightarrow> \<not> require_2fa d \<Longrightarrow> warnings d = [] \<Longrightarrow>
   agg_step st (r, d) = Inr (agg_append st r d)"
  by (simp add: agg_step_def agg_append_def Let_def)

lemma agg_loop_snoc:
  "agg_loop st (ds @ [x]) = exn_bind (agg_loop st ds) (\<lambda>st'. agg_step st' x)"
proof (induction ds arbitrary: st)
  case Nil
  show ?case by (cases "agg_step st x") simp_all
next
  case (Cons d ds)
  show ?case by (cases "agg_step st d") (simp_all add: Cons.IH)
qed


lemma find_append:
  "find P (xs @ ys) = (case find P xs of None \<Rightarrow> find P ys | Some x \<Rightarrow> Some x)"
  by (induction xs) simp_all

lemma find_None_iff2: "find P xs = None \<longleftrightarrow> (\<forall>x\<in>set xs. \<not> P x)"
  by (induction xs) simp_all

text \<open>The fields of the state after one iteration, for a decision of the declared type.\<close>

lemma agg_step_fields:
  assumes td: "int_or_none (delay_seconds d)" and ts: "int_or_none (st_delay_seconds st)"
  shows "\<exists>st'. agg_step st (r, d) = Inr st'
     \<and> st_rules_evaluated st' = st_rules_evaluated st @ [name r]
     \<and> all_warnings st' = all_warnings st @ warnings d
     \<and> all_actions st' = all_actions st @ required_actions d @
          (if asks_2fa (r, d) \<and> final_decision st \<noteq> BLOCK \<and> final_decision st \<noteq> DELAY
           then [''2fa_required''] else [])
     \<and> final_decision st' =
          (if blocks (r, d) then BLOCK
           else if delays (r, d) then (if final_decision st = BLOCK then BLOCK else DELAY)
           else if asks_2fa (r, d)
           then (if final_decision st = BLOCK \<or> final_decision st = DELAY
                 then final_decision st else REQUIRE_2FA)
           else if warns (r, d) then (if final_decision st = ALLOW then WARN else final_decision st)
           else final_decision st)
     \<and> int_or_none (st_delay_seconds st')
     \<and> (blocks (r, d) \<longrightarrow> st_delay_seconds st' = st_delay_seconds st
          \<and> st_blocking_rule st' =
              (if final_decision st = BLOCK then st_blocking_rule st else Some (name r)))
     \<and> (\<not> blocks (r, d) \<and> \<not> delays (r, d) \<longrightarrow>
          st_delay_seconds st' = st_delay_seconds st \<and> st_blocking_rule st' = st_blocking_rule st)
     \<and> (delays (r, d) \<and> final_decision st = BLOCK \<longrightarrow>
          st_delay_seconds st' = st_delay_seconds st \<and> st_blocking_rule st' = st_blocking_rule st)
     \<and> (delays (r, d) \<and> final_decision st \<noteq> BLOCK \<longrightarrow>
          (\<exists>n. delay_seconds d = VInt n \<and> n \<noteq> 0
             \<and> (if st_delay_seconds st = VNone \<or> (\<exists>m. st_delay_seconds st = VInt m \<and> m < n)
                 then st_delay_seconds st' = VInt n \<and> st_blocking_rule st' = Some (name r)
                 else st_delay_seconds st' = st_delay_seconds st
                      \<and> st_blocking_rule st' = st_blocking_rule st)))"
proof (cases "allowed d")
  case False
  then show ?thesis
    using ts by (simp add: agg_step_blocks blocks_def delays_def asks_2fa_def warns_def agg_append_def)
next
  case al: True
  show ?thesis
  proof (cases "truthy (delay_seconds d)")
    case True
    with td obtain n where n: "delay_seconds d = VInt n" "n \<noteq> 0"
      by (cases "delay_seconds d") auto
    show ?thesis
      using ts al n
      by (cases "st_delay_seconds st")
         (simp_all add: agg_step_delays blocks_def delays_def asks_2fa_def warns_def agg_append_def)
  next
    case nt: False
    show ?thesis
    proof (cases "require_2fa d")
      case True
      then show ?thesis
        using ts al nt
        by (simp add: agg_step_asks_2fa blocks_def delays_def asks_2fa_def warns_def agg_append_def)
    next
      case n2: False
      show ?thesis
      proof (cases "warnings d = []")
        case True
        then show ?thesis
          using ts al nt n2
          by (simp add: agg_step_plain blocks_def delays_def asks_2fa_def warns_def agg_append_def)
      next
        case False
        then show ?thesis
          using ts al nt n2
          by (simp add: agg_step_warns blocks_def delays_def asks_2fa_def warns_def agg_append_def)
      qed
    qed
  qed
qed

lemma verdict_BLOCK: "(verdict ds = BLOCK) = (\<exists>rd\<in>set ds. blocks rd)"
  by (simp add: verdict_def)

lemma verdict_low:
  "(verdict ds \<noteq> BLOCK \<and> verdict ds \<noteq> DELAY) = (\<forall>rd\<in>set ds. \<not> blocks rd \<and> \<not> delays rd)"
  by (auto simp: verdict_def)

lemma verdict_ALLOW:
  "(verdict ds = ALLOW) =
     (\<forall>rd\<in>set ds. \<not> blocks rd \<and> \<not> delays rd \<and> \<not> asks_2fa rd \<and> \<not> warns rd)"
  by (auto simp: verdict_def)

lemma kinds_exclusive:
  "blocks x \<Longrightarrow> \<not> delays x \<and> \<not> asks_2fa x \<and> \<not> warns x"
  "delays x \<Longrightarrow> \<not> asks_2fa x \<and> \<not> warns x"
  "asks_2fa x \<Longrightarrow> \<not> warns x"
  by (auto simp: blocks_def delays_def asks_2fa_def warns_def)

lemma verdict_snoc:
  "verdict (ds @ [x]) =
     (if blocks x then BLOCK
      else if delays x then (if verdict ds = BLOCK then BLOCK else DELAY)
      else if asks_2fa x
      then (if verdict ds = BLOCK \<or> verdict ds = DELAY then verdict ds else REQUIRE_2FA)
      else if warns x then (if verdict ds = ALLOW then WARN else verdict ds)
      else verdict ds)"
proof -
  have ex: "\<And>P. (\<exists>rd\<in>set (ds @ [x]). P rd) = ((\<exists>rd\<in>set ds. P rd) \<or> P x)" by auto
  show ?thesis
    unfolding verdict_def ex using kinds_exclusive [of x] by (simp; blast)
qed

lemma bex_snoc_takeWhile:
  "(\<exists>rd\<in>set (ds @ takeWhile P [x]). Q rd) = ((\<exists>rd\<in>set ds. Q rd) \<or> (P x \<and> Q x))"
  by (cases "P x") auto

lemma adds_2fa_snoc:
  "adds_2fa (ds @ [x]) =
     (adds_2fa ds \<or> ((\<forall>rd\<in>set ds. \<not> blocks rd \<and> \<not> delays rd) \<and> asks_2fa x))"
proof (cases "\<forall>rd\<in>set ds. \<not> blocks rd \<and> \<not> delays rd")
  case True
  then have tw: "takeWhile (\<lambda>rd. \<not> blocks rd \<and> \<not> delays rd) ds = ds"
    by (simp add: takeWhile_eq_all_conv)
  have tw2: "takeWhile (\<lambda>rd. \<not> blocks rd \<and> \<not> delays rd) (ds @ [x]) =
      ds @ takeWhile (\<lambda>rd. \<not> blocks rd \<and> \<not> delays rd) [x]"
    by (rule takeWhile_append2) (use True in blast)
  have px: "asks_2fa x \<Longrightarrow> \<not> blocks x \<and> \<not> delays x"
    by (auto simp: blocks_def delays_def asks_2fa_def)
  have "adds_2fa (ds @ [x]) =
      ((\<exists>rd\<in>set ds. asks_2fa rd) \<or> ((\<not> blocks x \<and> \<not> delays x) \<and> asks_2fa x))"
    unfolding adds_2fa_def tw2 by (rule bex_snoc_takeWhile)
  with px have l: "adds_2fa (ds @ [x]) = ((\<exists>rd\<in>set ds. asks_2fa rd) \<or> asks_2fa x)"
    by blast
  have r: "adds_2fa ds = (\<exists>rd\<in>set ds. asks_2fa rd)"
    by (simp add: adds_2fa_def tw)
  show ?thesis
    unfolding l r using True by blast
next
  case False
  from False obtain y where y: "y \<in> set ds" "\<not> (\<not> blocks y \<and> \<not> delays y)"
    by blast
  have "takeWhile (\<lambda>rd. \<not> blocks rd \<and> \<not> delays rd) (ds @ [x]) =
      takeWhile (\<lambda>rd. \<not> blocks rd \<and> \<not> delays rd) ds"
    using y by (rule takeWhile_append1)
  then have "adds_2fa (ds @ [x]) = adds_2fa ds"
    by (simp add: adds_2fa_def)
  with False show ?thesis by blast
qed

lemma delays_iff: "\<not> blocks rd \<Longrightarrow> delays rd = truthy (delay_seconds (snd rd))"
  by (simp add: blocks_def delays_def)

lemma longest_delay_keep:
  assumes nb: "\<forall>rd\<in>set ds. \<not> blocks rd" and nx: "\<not> blocks x" "\<not> delays x"
    and ld: "longest_delay ds s b"
  shows "longest_delay (ds @ [x]) s b"
proof -
  from nx have zero: "\<And>n. delay_seconds (snd x) = VInt n \<Longrightarrow> n = 0"
    by (auto simp: delays_iff)
  show ?thesis
  proof (cases "\<exists>rd\<in>set ds. delays rd")
    case True
    with ld obtain m rd0 where m: "m \<noteq> 0" "s = VInt m"
      "\<forall>rd\<in>set ds. \<forall>n. delay_seconds (snd rd) = VInt n \<longrightarrow> n \<noteq> 0 \<longrightarrow> n \<le> m"
      "find (\<lambda>rd. delay_seconds (snd rd) = VInt m) ds = Some rd0" "b = Some (name (fst rd0))"
      unfolding longest_delay_def by auto
    have ex: "\<exists>rd\<in>set (ds @ [x]). delays rd" using True by auto
    have bound: "\<forall>rd\<in>set (ds @ [x]). \<forall>n. delay_seconds (snd rd) = VInt n \<longrightarrow> n \<noteq> 0 \<longrightarrow> n \<le> m"
      using m(3) zero by auto
    have fnd: "find (\<lambda>rd. delay_seconds (snd rd) = VInt m) (ds @ [x]) = Some rd0"
      by (simp add: find_append m(4))
    show ?thesis
      unfolding longest_delay_def if_P [OF ex] using m(1,2,5) bound fnd by blast
  next
    case False
    with ld have s: "s = VNone" "b = None" unfolding longest_delay_def by auto
    from False nx have "\<not> (\<exists>rd\<in>set (ds @ [x]). delays rd)" by auto
    with s show ?thesis unfolding longest_delay_def by simp
  qed
qed

lemma longest_delay_new:
  assumes nb: "\<forall>rd\<in>set ds. \<not> blocks rd" and nx: "\<not> blocks x"
    and dx: "delay_seconds (snd x) = VInt n" "n \<noteq> 0"
    and ld: "longest_delay ds s b"
    and longer: "s = VNone \<or> (\<exists>m. s = VInt m \<and> m < n)"
  shows "longest_delay (ds @ [x]) (VInt n) (Some (name (fst x)))"
proof -
  from nx dx have xd: "delays x" by (simp add: delays_iff)
  then have ex: "\<exists>rd\<in>set (ds @ [x]). delays rd" by simp
  have below: "\<forall>rd\<in>set ds. \<forall>k. delay_seconds (snd rd) = VInt k \<longrightarrow> k \<noteq> 0 \<longrightarrow> k < n"
  proof (cases "\<exists>rd\<in>set ds. delays rd")
    case True
    with ld obtain m where m: "s = VInt m"
      "\<forall>rd\<in>set ds. \<forall>k. delay_seconds (snd rd) = VInt k \<longrightarrow> k \<noteq> 0 \<longrightarrow> k \<le> m"
      unfolding longest_delay_def by auto
    from m(1) longer have "m < n" by auto
    with m(2) show ?thesis by fastforce
  next
    case False
    show ?thesis
    proof (intro ballI allI impI)
      fix rd k assume rd: "rd \<in> set ds" "delay_seconds (snd rd) = VInt k" "k \<noteq> 0"
      with nb have "delays rd" by (simp add: delays_iff)
      with False rd(1) show "k < n" by blast
    qed
  qed
  then have none: "find (\<lambda>rd. delay_seconds (snd rd) = VInt n) ds = None"
    using dx(2) by (fastforce simp: find_None_iff2)
  have fnd: "find (\<lambda>rd. delay_seconds (snd rd) = VInt n) (ds @ [x]) = Some x"
    by (simp add: find_append none dx(1))
  have bound: "\<forall>rd\<in>set (ds @ [x]). \<forall>k. delay_seconds (snd rd) = VInt k \<longrightarrow> k \<noteq> 0 \<longrightarrow> k \<le> n"
    using below dx(1) by fastforce
  show ?thesis
    unfolding longest_delay_def if_P [OF ex] using dx(2) bound fnd by blast
qed

lemma longest_delay_old:
  assumes nb: "\<forall>rd\<in>set ds. \<not> blocks rd" and nx: "\<not> blocks x"
    and dx: "delay_seconds (snd x) = VInt n" "n \<noteq> 0"
    and ld: "longest_delay ds s b"
    and shorter: "\<not> (s = VNone \<or> (\<exists>m. s = VInt m \<and> m < n))"
  shows "longest_delay (ds @ [x]) s b"
proof -
  from shorter have sn: "s \<noteq> VNone" by simp
  with ld have True: "\<exists>rd\<in>set ds. delays rd"
    unfolding longest_delay_def by (auto split: if_splits)
  with ld obtain m rd0 where m: "m \<noteq> 0" "s = VInt m"
    "\<forall>rd\<in>set ds. \<forall>k. delay_seconds (snd rd) = VInt k \<longrightarrow> k \<noteq> 0 \<longrightarrow> k \<le> m"
    "find (\<lambda>rd. delay_seconds (snd rd) = VInt m) ds = Some rd0" "b = Some (name (fst rd0))"
    unfolding longest_delay_def by auto
  from shorter m(2) have nm: "n \<le> m" by auto
  have ex: "\<exists>rd\<in>set (ds @ [x]). delays rd" using True by auto
  have bound: "\<forall>rd\<in>set (ds @ [x]). \<forall>k. delay_seconds (snd rd) = VInt k \<longrightarrow> k \<noteq> 0 \<longrightarrow> k \<le> m"
    using m(3) nm dx(1) by auto
  have fnd: "find (\<lambda>rd. delay_seconds (snd rd) = VInt m) (ds @ [x]) = Some rd0"
    by (simp add: find_append m(4))
  show ?thesis
    unfolding longest_delay_def if_P [OF ex] using m(1,2,5) bound fnd by blast
qed

lemma agg_inv_init: "agg_inv [] agg_init"
  by (simp add: agg_inv_def agg_init_def verdict_def adds_2fa_def longest_delay_def)

lemma agg_inv_step:
  assumes inv: "agg_inv ds st"
    and td: "int_or_none (delay_seconds d)"
  shows "\<exists>st'. agg_step st (r, d) = Inr st' \<and> agg_inv (ds @ [(r, d)]) st'"
proof -
  let ?x = "(r, d)"
  from inv have
    i1: "st_rules_evaluated st = map (\<lambda>rd. name (fst rd)) ds" and
    i2: "all_warnings st = concat (map (\<lambda>rd. warnings (snd rd)) ds)" and
    i3: "set (all_actions st) =
          (\<Union>rd\<in>set ds. set (required_actions (snd rd)))
          \<union> (if adds_2fa ds then {''2fa_required''} else {})" and
    i4: "final_decision st = verdict ds" and
    i5: "int_or_none (st_delay_seconds st)" and
    i6: "(\<exists>rd\<in>set ds. blocks rd) \<longrightarrow>
           st_blocking_rule st = map_option (\<lambda>rd. name (fst rd)) (find blocks ds)" and
    i7: "(\<forall>rd\<in>set ds. \<not> blocks rd) \<longrightarrow>
           longest_delay ds (st_delay_seconds st) (st_blocking_rule st)"
    unfolding agg_inv_def by blast+
  from agg_step_fields [OF td i5, of r] obtain st' where
    step: "agg_step st ?x = Inr st'" and
    f1: "st_rules_evaluated st' = st_rules_evaluated st @ [name r]" and
    f2: "all_warnings st' = all_warnings st @ warnings d" and
    f3: "all_actions st' = all_actions st @ required_actions d @
          (if asks_2fa ?x \<and> final_decision st \<noteq> BLOCK \<and> final_decision st \<noteq> DELAY
           then [''2fa_required''] else [])" and
    f4: "final_decision st' =
          (if blocks ?x then BLOCK
           else if delays ?x then (if final_decision st = BLOCK then BLOCK else DELAY)
           else if asks_2fa ?x
           then (if final_decision st = BLOCK \<or> final_decision st = DELAY
                 then final_decision st else REQUIRE_2FA)
           else if warns ?x then (if final_decision st = ALLOW then WARN else final_decision st)
           else final_decision st)" and
    f5: "int_or_none (st_delay_seconds st')" and
    f6: "blocks ?x \<longrightarrow> st_delay_seconds st' = st_delay_seconds st
          \<and> st_blocking_rule st' =
              (if final_decision st = BLOCK then st_blocking_rule st else Some (name r))" and
    f7: "\<not> blocks ?x \<and> \<not> delays ?x \<longrightarrow>
          st_delay_seconds st' = st_delay_seconds st \<and> st_blocking_rule st' = st_blocking_rule st" and
    f8: "delays ?x \<and> final_decision st = BLOCK \<longrightarrow>
          st_delay_seconds st' = st_delay_seconds st \<and> st_blocking_rule st' = st_blocking_rule st" and
    f9: "delays ?x \<and> final_decision st \<noteq> BLOCK \<longrightarrow>
          (\<exists>n. delay_seconds d = VInt n \<and> n \<noteq> 0
             \<and> (if st_delay_seconds st = VNone \<or> (\<exists>m. st_delay_seconds st = VInt m \<and> m < n)
                 then st_delay_seconds st' = VInt n \<and> st_blocking_rule st' = Some (name r)
                 else st_delay_seconds st' = st_delay_seconds st
                      \<and> st_blocking_rule st' = st_blocking_rule st))"
    by blast
  have c1: "st_rules_evaluated st' = map (\<lambda>rd. name (fst rd)) (ds @ [?x])"
    by (simp add: f1 i1)
  have c2: "all_warnings st' = concat (map (\<lambda>rd. warnings (snd rd)) (ds @ [?x]))"
    by (simp add: f2 i2)
  have low: "(final_decision st \<noteq> BLOCK \<and> final_decision st \<noteq> DELAY) =
      (\<forall>rd\<in>set ds. \<not> blocks rd \<and> \<not> delays rd)"
    unfolding i4 by (rule verdict_low)
  have c3: "set (all_actions st') =
          (\<Union>rd\<in>set (ds @ [?x]). set (required_actions (snd rd)))
          \<union> (if adds_2fa (ds @ [?x]) then {''2fa_required''} else {})"
  proof -
    have a: "set (all_actions st') = set (all_actions st) \<union> set (required_actions d)
        \<union> (if asks_2fa ?x \<and> (\<forall>rd\<in>set ds. \<not> blocks rd \<and> \<not> delays rd)
           then {''2fa_required''} else {})"
      unfolding f3 using low by auto
    show ?thesis
      unfolding a i3 adds_2fa_snoc by auto
  qed
  have c4: "final_decision st' = verdict (ds @ [?x])"
    unfolding f4 i4 verdict_snoc ..
  have c6: "(\<exists>rd\<in>set (ds @ [?x]). blocks rd) \<longrightarrow>
           st_blocking_rule st' = map_option (\<lambda>rd. name (fst rd)) (find blocks (ds @ [?x]))"
  proof (cases "\<exists>rd\<in>set ds. blocks rd")
    case True
    then have fb: "final_decision st = BLOCK" by (simp add: i4 verdict_BLOCK)
    from True obtain b where b: "find blocks ds = Some b"
      by (cases "find blocks ds") (auto simp: find_None_iff2)
    have same: "st_blocking_rule st' = st_blocking_rule st"
      using f6 f7 f8 fb by (cases "blocks ?x"; cases "delays ?x") auto
    show ?thesis
      using True i6 same by (simp add: find_append b)
  next
    case False
    then have nb: "find blocks ds = None" by (simp add: find_None_iff2)
    from False have fb: "final_decision st \<noteq> BLOCK" by (simp add: i4 verdict_BLOCK)
    show ?thesis
    proof (cases "blocks ?x")
      case True
      with f6 fb show ?thesis by (simp add: find_append nb)
    next
      case nx: False
      with False show ?thesis by simp
    qed
  qed
  have c7: "(\<forall>rd\<in>set (ds @ [?x]). \<not> blocks rd) \<longrightarrow>
           longest_delay (ds @ [?x]) (st_delay_seconds st') (st_blocking_rule st')"
  proof
    assume all: "\<forall>rd\<in>set (ds @ [?x]). \<not> blocks rd"
    then have nb: "\<forall>rd\<in>set ds. \<not> blocks rd" and nx: "\<not> blocks ?x" by auto
    from nb have fb: "final_decision st \<noteq> BLOCK" by (simp add: i4 verdict_BLOCK)
    from nb i7 have ld: "longest_delay ds (st_delay_seconds st) (st_blocking_rule st)" by blast
    show "longest_delay (ds @ [?x]) (st_delay_seconds st') (st_blocking_rule st')"
    proof (cases "delays ?x")
      case False
      with f7 nx have "st_delay_seconds st' = st_delay_seconds st"
        "st_blocking_rule st' = st_blocking_rule st" by auto
      with longest_delay_keep [OF nb nx False ld] show ?thesis by simp
    next
      case True
      with f9 fb obtain n where n: "delay_seconds d = VInt n" "n \<noteq> 0" and
        upd: "if st_delay_seconds st = VNone \<or> (\<exists>m. st_delay_seconds st = VInt m \<and> m < n)
                 then st_delay_seconds st' = VInt n \<and> st_blocking_rule st' = Some (name r)
                 else st_delay_seconds st' = st_delay_seconds st
                      \<and> st_blocking_rule st' = st_blocking_rule st"
        by blast
      have dx: "delay_seconds (snd ?x) = VInt n" using n(1) by simp
      show ?thesis
      proof (cases "st_delay_seconds st = VNone \<or> (\<exists>m. st_delay_seconds st = VInt m \<and> m < n)")
        case longer: True
        with upd have "st_delay_seconds st' = VInt n" "st_blocking_rule st' = Some (name (fst ?x))"
          by auto
        with longest_delay_new [OF nb nx dx n(2) ld longer] show ?thesis by simp
      next
        case shorter: False
        with upd have "st_delay_seconds st' = st_delay_seconds st"
          "st_blocking_rule st' = st_blocking_rule st" by auto
        with longest_delay_old [OF nb nx dx n(2) ld shorter] show ?thesis by simp
      qed
    qed
  qed
  have "agg_inv (ds @ [?x]) st'"
    unfolding agg_inv_def using c1 c2 c3 c4 f5 c6 c7 by blast
  with step show ?thesis by blast
qed

lemma agg_loop_state:
  "\<forall>rd\<in>set ds. int_or_none (delay_seconds (snd rd)) \<Longrightarrow>
   \<exists>st. agg_loop agg_init ds = Inr st \<and> agg_inv ds st"
proof (induction ds rule: rev_induct)
  case Nil
  show ?case using agg_inv_init by simp
next
  case (snoc x ds)
  from snoc.prems have typed: "\<forall>rd\<in>set ds. int_or_none (delay_seconds (snd rd))"
    and tx: "int_or_none (delay_seconds (snd x))" by auto
  from snoc.IH [OF typed] obtain st where st: "agg_loop agg_init ds = Inr st" "agg_inv ds st"
    by blast
  from agg_inv_step [OF st(2) tx, of "fst x"] obtain st' where
    st': "agg_step st x = Inr st'" "agg_inv (ds @ [x]) st'" by auto
  have "agg_loop agg_init (ds @ [x]) = Inr st'"
    by (simp add: agg_loop_snoc st(1) st'(1))
  with st'(2) show ?case by blast
qed

lemma verdict_not_blocked:
  assumes nb: "\<forall>rd\<in>set ds. \<not> blocks rd" and nd: "\<forall>rd\<in>set ds. \<not> delays rd"
  shows "(\<exists>rd\<in>set ds. asks_2fa rd) = (\<exists>rd\<in>set ds. require_2fa (snd rd))"
    and "\<forall>rd\<in>set ds. \<not> require_2fa (snd rd) \<Longrightarrow>
           (\<exists>rd\<in>set ds. warns rd) = (\<exists>rd\<in>set ds. warnings (snd rd) \<noteq> [])"
    and "(\<exists>rd\<in>set ds. asks_2fa rd) \<Longrightarrow> adds_2fa ds"
proof -
  have plain: "\<And>rd. rd \<in> set ds \<Longrightarrow> allowed (snd rd) \<and> \<not> truthy (delay_seconds (snd rd))"
    using nb nd by (auto simp: blocks_def delays_def)
  show "(\<exists>rd\<in>set ds. asks_2fa rd) = (\<exists>rd\<in>set ds. require_2fa (snd rd))"
    using plain by (auto simp: asks_2fa_def)
  show "\<forall>rd\<in>set ds. \<not> require_2fa (snd rd) \<Longrightarrow>
           (\<exists>rd\<in>set ds. warns rd) = (\<exists>rd\<in>set ds. warnings (snd rd) \<noteq> [])"
    using plain by (auto simp: warns_def)
  have tw: "takeWhile (\<lambda>rd. \<not> blocks rd \<and> \<not> delays rd) ds = ds"
    using nb nd by (simp add: takeWhile_eq_all_conv)
  show "(\<exists>rd\<in>set ds. asks_2fa rd) \<Longrightarrow> adds_2fa ds"
    unfolding adds_2fa_def tw .
qed


text \<open>
  Claim C3, as the code has it. For decisions whose \<open>delay_seconds\<close> is an integer or
  \<open>None\<close>, the aggregation returns a result with: the names of all rules, in order; the
  warnings of all decisions, without duplicates; the required actions of all decisions,
  without duplicates, and \<open>2fa_required\<close> besides when a decision asked for 2FA before
  any decision blocked or delayed. If some decision has \<open>allowed = false\<close> the result is
  BLOCK and names the first such rule. Else, if some decision has a non-zero
  \<open>delay_seconds\<close>, the result is DELAY with the greatest non-zero delay and names the
  first rule that asked for it. Else, if some decision has \<open>require_2fa\<close>, the result is
  REQUIRE_2FA and the required actions hold \<open>2fa_required\<close>. Else, if some decision has
  warnings, the result is WARN; else it is ALLOW. A \<open>delay_seconds\<close> of zero does not
  count as a delay.
\<close>

theorem aggregation_precedence:
  assumes typed: "\<forall>rd\<in>set ds. int_or_none (delay_seconds (snd rd))"
  shows "\<exists>r. aggregate_decisions ds = Inr r
     \<and> rules_evaluated r = map (\<lambda>rd. name (fst rd)) ds
     \<and> set (result_warnings r) = (\<Union>rd\<in>set ds. set (warnings (snd rd)))
     \<and> distinct (result_warnings r)
     \<and> set (result_required_actions r) =
          (\<Union>rd\<in>set ds. set (required_actions (snd rd)))
          \<union> (if adds_2fa ds then {''2fa_required''} else {})
     \<and> distinct (result_required_actions r)
     \<and> (if \<exists>rd\<in>set ds. blocks rd
         then decision r = BLOCK
              \<and> blocking_rule r = map_option (\<lambda>rd. name (fst rd)) (find blocks ds)
         else if \<exists>rd\<in>set ds. delays rd
         then decision r = DELAY
              \<and> longest_delay ds (result_delay_seconds r) (blocking_rule r)
         else if \<exists>rd\<in>set ds. require_2fa (snd rd)
         then decision r = REQUIRE_2FA \<and> ''2fa_required'' \<in> set (result_required_actions r)
         else if \<exists>rd\<in>set ds. warnings (snd rd) \<noteq> []
         then decision r = WARN
         else decision r = ALLOW)"
proof -
  from agg_loop_state [OF typed] obtain st where
    loop: "agg_loop agg_init ds = Inr st" and inv: "agg_inv ds st" by blast
  from inv have
    i1: "st_rules_evaluated st = map (\<lambda>rd. name (fst rd)) ds" and
    i2: "all_warnings st = concat (map (\<lambda>rd. warnings (snd rd)) ds)" and
    i3: "set (all_actions st) =
          (\<Union>rd\<in>set ds. set (required_actions (snd rd)))
          \<union> (if adds_2fa ds then {''2fa_required''} else {})" and
    i4: "final_decision st = verdict ds" and
    i6: "(\<exists>rd\<in>set ds. blocks rd) \<longrightarrow>
           st_blocking_rule st = map_option (\<lambda>rd. name (fst rd)) (find blocks ds)" and
    i7: "(\<forall>rd\<in>set ds. \<not> blocks rd) \<longrightarrow>
           longest_delay ds (st_delay_seconds st) (st_blocking_rule st)"
    unfolding agg_inv_def by blast+
  let ?r = "\<lparr>decision = final_decision st, blocking_rule = st_blocking_rule st,
             result_delay_seconds = st_delay_seconds st,
             result_warnings = remdups (all_warnings st),
             result_required_actions = remdups (all_actions st),
             rules_evaluated = st_rules_evaluated st\<rparr>"
  have keeps: "post_init ?r = ?r"
  proof (cases "final_decision st = DELAY")
    case True
    with i4 have v: "verdict ds = DELAY" by simp
    then have nb: "\<forall>rd\<in>set ds. \<not> blocks rd" and ex: "\<exists>rd\<in>set ds. delays rd"
      by (auto simp: verdict_def split: if_splits)
    from nb i7 ex have "\<exists>m. m \<noteq> 0 \<and> st_delay_seconds st = VInt m"
      unfolding longest_delay_def by auto
    then have "truthy (st_delay_seconds st)" by auto
    then show ?thesis by (simp add: post_init_def)
  next
    case False
    then show ?thesis by (simp add: post_init_def)
  qed
  have res: "aggregate_decisions ds = Inr ?r"
    by (simp add: aggregate_decisions_def loop keeps)
  have w: "set (result_warnings ?r) = (\<Union>rd\<in>set ds. set (warnings (snd rd)))"
    by (simp add: i2)
  have cases: "if \<exists>rd\<in>set ds. blocks rd
         then decision ?r = BLOCK
              \<and> blocking_rule ?r = map_option (\<lambda>rd. name (fst rd)) (find blocks ds)
         else if \<exists>rd\<in>set ds. delays rd
         then decision ?r = DELAY
              \<and> longest_delay ds (result_delay_seconds ?r) (blocking_rule ?r)
         else if \<exists>rd\<in>set ds. require_2fa (snd rd)
         then decision ?r = REQUIRE_2FA \<and> ''2fa_required'' \<in> set (result_required_actions ?r)
         else if \<exists>rd\<in>set ds. warnings (snd rd) \<noteq> []
         then decision ?r = WARN
         else decision ?r = ALLOW"
  proof (cases "\<exists>rd\<in>set ds. blocks rd")
    case True
    with i6 i4 show ?thesis by (simp add: verdict_def)
  next
    case nb: False
    then have nb': "\<forall>rd\<in>set ds. \<not> blocks rd" by blast
    show ?thesis
    proof (cases "\<exists>rd\<in>set ds. delays rd")
      case True
      with nb nb' i7 i4 show ?thesis by (simp add: verdict_def)
    next
      case nd: False
      then have nd': "\<forall>rd\<in>set ds. \<not> delays rd" by blast
      note vb = verdict_not_blocked [OF nb' nd']
      show ?thesis
      proof (cases "\<exists>rd\<in>set ds. require_2fa (snd rd)")
        case True
        then have a: "\<exists>rd\<in>set ds. asks_2fa rd" using vb(1) by simp
        then have "adds_2fa ds" by (rule vb(3))
        then have "''2fa_required'' \<in> set (all_actions st)" using i3 by simp
        with nb nd True a i4 show ?thesis by (simp add: verdict_def)
      next
        case n2: False
        then have n2': "\<forall>rd\<in>set ds. \<not> require_2fa (snd rd)" by blast
        from n2 vb(1) have na: "\<not> (\<exists>rd\<in>set ds. asks_2fa rd)" by simp
        from vb(2) [OF n2'] have wq: "(\<exists>rd\<in>set ds. warns rd) = (\<exists>rd\<in>set ds. warnings (snd rd) \<noteq> [])" .
        show ?thesis
          using nb nd n2 na wq i4 by (simp add: verdict_def)
      qed
    qed
  qed
  show ?thesis
    using res i1 w i3 cases by (intro exI [of _ ?r]) simp
qed

text \<open>
  Two decisions, a delay of one hour and then a block: the hypothesis holds, and the
  theorem describes the result.
\<close>

theorem aggregation_precedence_witness:
  "\<exists>r. aggregate_decisions example_decisions = Inr r
     \<and> rules_evaluated r = [''Velocity'', ''Whitelist'']
     \<and> decision r = BLOCK
     \<and> blocking_rule r = Some ''Whitelist''"
proof -
  have h: "\<forall>rd\<in>set example_decisions. int_or_none (delay_seconds (snd rd))"
    by (simp add: example_decisions_def PolicyDecision_delay_def PolicyDecision_block_def)
  have b: "\<exists>rd\<in>set example_decisions. blocks rd"
    by (simp add: example_decisions_def blocks_def PolicyDecision_block_def)
  have f: "map_option (\<lambda>rd. name (fst rd)) (find blocks example_decisions) = Some ''Whitelist''"
    by (simp add: example_decisions_def blocks_def PolicyDecision_block_def
        PolicyDecision_delay_def example_whitelist_def)
  have n: "map (\<lambda>rd. name (fst rd)) example_decisions = [''Velocity'', ''Whitelist'']"
    by (simp add: example_decisions_def example_whitelist_def example_velocity_def)
  from aggregation_precedence [OF h] obtain r where
    r: "aggregate_decisions example_decisions = Inr r"
       "rules_evaluated r = map (\<lambda>rd. name (fst rd)) example_decisions"
       "if \<exists>rd\<in>set example_decisions. blocks rd
         then decision r = BLOCK
              \<and> blocking_rule r = map_option (\<lambda>rd. name (fst rd)) (find blocks example_decisions)
         else if \<exists>rd\<in>set example_decisions. delays rd
         then decision r = DELAY
              \<and> longest_delay example_decisions (result_delay_seconds r) (blocking_rule r)
         else if \<exists>rd\<in>set example_decisions. require_2fa (snd rd)
         then decision r = REQUIRE_2FA \<and> ''2fa_required'' \<in> set (result_required_actions r)
         else if \<exists>rd\<in>set example_decisions. warnings (snd rd) \<noteq> []
         then decision r = WARN
         else decision r = ALLOW"
    by blast
  from r(3) have "decision r = BLOCK
      \<and> blocking_rule r = map_option (\<lambda>rd. name (fst rd)) (find blocks example_decisions)"
    unfolding if_P [OF b] .
  with r(1) r(2) f n show ?thesis by (intro exI [of _ r]) simp
qed

text \<open>
  The claim as stated fails: a single decision that sets \<open>delay_seconds = 0\<close> does not
  give DELAY but ALLOW.
\<close>

theorem aggregation_zero_delay_counterexample:
  "aggregate_decisions [(example_velocity, PolicyDecision_delay (VInt 0) NoReason)] =
     Inr \<lparr>decision = ALLOW, blocking_rule = None, result_delay_seconds = VNone,
          result_warnings = [], result_required_actions = [],
          rules_evaluated = [''Velocity'']\<rparr>"
  by (simp add: aggregate_decisions_def agg_step_def agg_append_def agg_init_def
      PolicyDecision_delay_def post_init_def example_velocity_def Let_def)

text \<open>
  Claim C10. A decision that allows with a positive delay \<open>n\<close>, followed by a decision
  that does not allow: the result is BLOCK, names the second rule, and its
  \<open>delay_seconds\<close> is still \<open>n\<close>.
\<close>

theorem block_keeps_delay:
  assumes a1: "allowed d1" and dl: "delay_seconds d1 = VInt n" and pos: "0 < n"
    and a2: "\<not> allowed d2"
  shows "\<exists>r. aggregate_decisions [(r1, d1), (r2, d2)] = Inr r
      \<and> decision r = BLOCK \<and> result_delay_seconds r = VInt n
      \<and> blocking_rule r = Some (name r2)"
proof -
  from pos have nz: "n \<noteq> 0" by simp
  have s1: "agg_step agg_init (r1, d1) =
      Inr ((agg_append agg_init r1 d1)\<lparr>final_decision := DELAY, st_delay_seconds := VInt n,
             st_blocking_rule := Some (name r1)\<rparr>)"
    using agg_step_delays [OF a1 dl nz, of agg_init r1] by (simp add: agg_init_def)
  let ?st1 = "(agg_append agg_init r1 d1)\<lparr>final_decision := DELAY, st_delay_seconds := VInt n,
             st_blocking_rule := Some (name r1)\<rparr>"
  have s2: "agg_step ?st1 (r2, d2) =
      Inr ((agg_append ?st1 r2 d2)\<lparr>final_decision := BLOCK, st_blocking_rule := Some (name r2)\<rparr>)"
    using agg_step_blocks [OF a2, of ?st1 r2] by simp
  have "agg_loop agg_init [(r1, d1), (r2, d2)] =
      Inr ((agg_append ?st1 r2 d2)\<lparr>final_decision := BLOCK, st_blocking_rule := Some (name r2)\<rparr>)"
    by (simp add: s1 s2)
  then show ?thesis
    by (simp add: aggregate_decisions_def post_init_def agg_append_def)
qed

theorem block_keeps_delay_witness:
  "allowed (PolicyDecision_delay (VInt 3600) NoReason)
   \<and> delay_seconds (PolicyDecision_delay (VInt 3600) NoReason) = VInt 3600
   \<and> (0::int) < 3600
   \<and> \<not> allowed (PolicyDecision_block WeekendBlock)
   \<and> (\<exists>r. aggregate_decisions
            [(example_velocity, PolicyDecision_delay (VInt 3600) NoReason),
             (example_whitelist, PolicyDecision_block WeekendBlock)] = Inr r
      \<and> decision r = BLOCK \<and> result_delay_seconds r = VInt 3600
      \<and> blocking_rule r = Some (name example_whitelist))"
proof -
  have h1: "allowed (PolicyDecision_delay (VInt 3600) NoReason)"
    by (simp add: PolicyDecision_delay_def)
  have h2: "delay_seconds (PolicyDecision_delay (VInt 3600) NoReason) = VInt 3600"
    by (simp add: PolicyDecision_delay_def)
  have h3: "(0::int) < 3600" by simp
  have h4: "\<not> allowed (PolicyDecision_block WeekendBlock)"
    by (simp add: PolicyDecision_block_def)
  note c = block_keeps_delay [OF h1 h2 h3 h4, of example_velocity example_whitelist]
  show ?thesis using h1 h2 h3 h4 c by - (intro conjI, assumption+)
qed

subsection \<open>Loading and ordering the rules\<close>

lemma load_loop_eq:
  "load_loop reg policies rules = rules @ List.map_filter (loaded reg) policies"
proof (induction policies arbitrary: rules)
  case Nil
  show ?case by simp
next
  case (Cons p ps)
  show ?case
    by (cases "is_active p"; cases "rule_type p"; cases "reg (the (rule_type p))")
       (auto simp: Cons.IH loaded_def)
qed

lemma agg_step_trail:
  "agg_step st x = Inr st' \<Longrightarrow> st_rules_evaluated st' = st_rules_evaluated st @ [name (fst x)]"
  unfolding agg_step_def agg_append_def Let_def exn_bind_def
  by (auto split: if_splits sum.splits)

lemma agg_loop_trail:
  "agg_loop st ds = Inr st' \<Longrightarrow>
   st_rules_evaluated st' = st_rules_evaluated st @ map (\<lambda>rd. name (fst rd)) ds"
proof (induction ds arbitrary: st)
  case Nil
  then show ?case by simp
next
  case (Cons d ds)
  from Cons.prems obtain st1 where s1: "agg_step st d = Inr st1" "agg_loop st1 ds = Inr st'"
    by (cases "agg_step st d") auto
  from Cons.IH [OF s1(2)] agg_step_trail [OF s1(1)] show ?case by simp
qed

lemma aggregate_trail:
  "aggregate_decisions ds = Inr r \<Longrightarrow> rules_evaluated r = map (\<lambda>rd. name (fst rd)) ds"
proof -
  assume a: "aggregate_decisions ds = Inr r"
  then obtain st where st: "agg_loop agg_init ds = Inr st"
    by (cases "agg_loop agg_init ds") (auto simp: aggregate_decisions_def)
  from agg_loop_trail [OF st] have "st_rules_evaluated st = map (\<lambda>rd. name (fst rd)) ds"
    by (simp add: agg_init_def)
  with a st show ?thesis
    by (auto simp: aggregate_decisions_def post_init_def split: if_splits)
qed

lemma execute_all_ok:
  assumes nd: "\<not> duress_mode_active tx"
    and ok: "\<forall>p\<in>set rules. \<exists>d. evaluate L p (context_of tx) = Inr d"
  shows "execute L rules tx =
     aggregate_decisions (map (\<lambda>p. (p, projr (evaluate L p (context_of tx)))) rules)"
proof -
  have "collect L (rules @ []) tx [] =
      collect L [] tx ([] @ map (\<lambda>p. (p, projr (evaluate L p (context_of tx)))) rules)"
    by (rule collect_all_ok [OF ok])
  then have "collect L rules tx [] =
      Inr (map (\<lambda>p. (p, projr (evaluate L p (context_of tx)))) rules)"
    by simp
  then show ?thesis by (simp add: execute_def nd)
qed

text \<open>
  Claim C4. The rules that \<open>load_rules_from_config\<close> produces are the rules given by
  the active records of a registered type (same elements, same number), in descending
  priority, and the rules of any one priority are in the order of their records (the
  sort is stable). Without duress, when every rule returns a decision, a result of
  \<open>execute\<close> has the names of exactly these rules, in this order, as \<open>rules_evaluated\<close>;
  and \<open>execute\<close> does return a result when the decisions' delays are integers or
  \<open>None\<close>.
\<close>

theorem load_rules_sorted_stable:
  assumes rules: "rules = load_rules_from_config reg policies"
  shows "set rules = set (List.map_filter (loaded reg) policies)
     \<and> length rules = length (List.map_filter (loaded reg) policies)
     \<and> sorted_wrt (\<lambda>a b. priority a \<ge> priority b) rules
     \<and> (\<forall>k. filter (\<lambda>r. priority r = k) rules =
             filter (\<lambda>r. priority r = k) (List.map_filter (loaded reg) policies))
     \<and> (\<not> duress_mode_active tx \<and> (\<forall>p\<in>set rules. \<exists>d. evaluate L p (context_of tx) = Inr d) \<longrightarrow>
          (\<forall>r. execute L rules tx = Inr r \<longrightarrow> rules_evaluated r = map name rules)
          \<and> ((\<forall>p\<in>set rules. \<forall>d. evaluate L p (context_of tx) = Inr d \<longrightarrow>
                 int_or_none (delay_seconds d)) \<longrightarrow>
               (\<exists>r. execute L rules tx = Inr r)))"
proof -
  let ?made = "List.map_filter (loaded reg) policies"
  have eq: "rules = sort_key (\<lambda>r. - priority r) ?made"
    by (simp add: rules load_rules_from_config_def sort_rules_def load_loop_eq)
  have s1: "set rules = set ?made" by (simp add: eq)
  have s2: "length rules = length ?made" by (simp add: eq)
  have "sorted (map (\<lambda>r. - priority r) rules)"
    unfolding eq by (rule sorted_sort_key)
  then have s3: "sorted_wrt (\<lambda>a b. priority a \<ge> priority b) rules"
    by (simp add: sorted_map)
  have s4: "\<forall>k. filter (\<lambda>r. priority r = k) rules = filter (\<lambda>r. priority r = k) ?made"
  proof
    fix k
    have "filter (\<lambda>r. - priority r = - k) (sort_key (\<lambda>r. - priority r) ?made) =
        filter (\<lambda>r. - priority r = - k) ?made"
      by (rule sort_key_stable)
    then show "filter (\<lambda>r. priority r = k) rules = filter (\<lambda>r. priority r = k) ?made"
      by (simp add: eq)
  qed
  have s5: "\<not> duress_mode_active tx \<and> (\<forall>p\<in>set rules. \<exists>d. evaluate L p (context_of tx) = Inr d) \<longrightarrow>
          (\<forall>r. execute L rules tx = Inr r \<longrightarrow> rules_evaluated r = map name rules)
          \<and> ((\<forall>p\<in>set rules. \<forall>d. evaluate L p (context_of tx) = Inr d \<longrightarrow>
                 int_or_none (delay_seconds d)) \<longrightarrow>
               (\<exists>r. execute L rules tx = Inr r))"
  proof (intro impI, elim conjE)
    assume nd: "\<not> duress_mode_active tx"
      and ok: "\<forall>p\<in>set rules. \<exists>d. evaluate L p (context_of tx) = Inr d"
    let ?ds = "map (\<lambda>p. (p, projr (evaluate L p (context_of tx)))) rules"
    note ex = execute_all_ok [OF nd ok]
    have names: "map (\<lambda>rd. name (fst rd)) ?ds = map name rules" by (simp add: comp_def)
    have a: "\<forall>r. execute L rules tx = Inr r \<longrightarrow> rules_evaluated r = map name rules"
      using aggregate_trail [of ?ds] names unfolding ex by simp
    have b: "(\<forall>p\<in>set rules. \<forall>d. evaluate L p (context_of tx) = Inr d \<longrightarrow>
                 int_or_none (delay_seconds d)) \<longrightarrow> (\<exists>r. execute L rules tx = Inr r)"
    proof
      assume ty: "\<forall>p\<in>set rules. \<forall>d. evaluate L p (context_of tx) = Inr d \<longrightarrow>
                 int_or_none (delay_seconds d)"
      have "\<forall>rd\<in>set ?ds. int_or_none (delay_seconds (snd rd))"
      proof
        fix rd assume "rd \<in> set ?ds"
        then obtain p where p: "p \<in> set rules" "rd = (p, projr (evaluate L p (context_of tx)))"
          by auto
        from ok p(1) obtain d where d: "evaluate L p (context_of tx) = Inr d" by blast
        with ty p(1) have "int_or_none (delay_seconds d)" by blast
        with p(2) d show "int_or_none (delay_seconds (snd rd))" by simp
      qed
      from agg_loop_state [OF this] obtain st where "agg_loop agg_init ?ds = Inr st" by blast
      then show "\<exists>r. execute L rules tx = Inr r"
        unfolding ex by (simp add: aggregate_decisions_def)
    qed
    from a b show "(\<forall>r. execute L rules tx = Inr r \<longrightarrow> rules_evaluated r = map name rules)
          \<and> ((\<forall>p\<in>set rules. \<forall>d. evaluate L p (context_of tx) = Inr d \<longrightarrow>
                 int_or_none (delay_seconds d)) \<longrightarrow>
               (\<exists>r. execute L rules tx = Inr r))" by (rule conjI)
  qed
  from s1 s2 s3 s4 s5 show ?thesis by (intro conjI)
qed

lemma example_load:
  "load_rules_from_config evaluator_registry example_policies =
     [\<lparr>name = ''whitelist'', config = [''mode'' \<mapsto> VStr ''warn_unknown''], priority = 5,
       rule_class = WhitelistRule\<rparr>,
      \<lparr>name = ''Velocity'', config = [''max_per_tx_usd'' \<mapsto> VInt 25000], priority = 1,
       rule_class = VelocityRule\<rparr>]"
  by (simp add: load_rules_from_config_def sort_rules_def example_policies_def
      evaluator_registry_def)

lemma example_loaded_whitelist:
  "evaluate example_lib
     \<lparr>name = ''whitelist'', config = [''mode'' \<mapsto> VStr ''warn_unknown''], priority = 5,
       rule_class = WhitelistRule\<rparr> (context_of example_tx) =
     Inr (PolicyDecision_allow
       [''This is a new address not in your whitelist: 0x742d35Cc...''])"
  by (simp add: evaluate_def whitelist_evaluate_def context_of_def
      example_tx_def get_def get_default_def)

lemma example_loaded_velocity:
  "evaluate example_lib
     \<lparr>name = ''Velocity'', config = [''max_per_tx_usd'' \<mapsto> VInt 25000], priority = 1,
       rule_class = VelocityRule\<rparr> (context_of example_tx) =
     Inr (PolicyDecision_allow [])"
  by (simp add: evaluate_def velocity_evaluate_def limit_of_def context_of_def
      example_tx_def example_lib_def get_def get_default_def)

text \<open>
  Of the four example records, two are loaded: the whitelist rule (priority 5, named
  after its type) before the velocity rule (priority 1); the audit trail has this order.
\<close>

theorem load_rules_sorted_stable_witness:
  "load_rules_from_config evaluator_registry example_policies =
     [\<lparr>name = ''whitelist'', config = [''mode'' \<mapsto> VStr ''warn_unknown''], priority = 5,
       rule_class = WhitelistRule\<rparr>,
      \<lparr>name = ''Velocity'', config = [''max_per_tx_usd'' \<mapsto> VInt 25000], priority = 1,
       rule_class = VelocityRule\<rparr>]
   \<and> (\<exists>r. execute example_lib (load_rules_from_config evaluator_registry example_policies)
            example_tx = Inr r
        \<and> rules_evaluated r = [''whitelist'', ''Velocity''])"
proof -
  let ?rules = "load_rules_from_config evaluator_registry example_policies"
  have nd: "\<not> duress_mode_active example_tx" by (simp add: example_tx_def)
  have ok: "\<forall>p\<in>set ?rules. \<exists>d. evaluate example_lib p (context_of example_tx) = Inr d"
    unfolding example_load by (simp add: example_loaded_whitelist example_loaded_velocity)
  have ty: "\<forall>p\<in>set ?rules. \<forall>d. evaluate example_lib p (context_of example_tx) = Inr d \<longrightarrow>
                 int_or_none (delay_seconds d)"
    unfolding example_load
    by (auto simp add: example_loaded_whitelist example_loaded_velocity PolicyDecision_allow_def)
  from load_rules_sorted_stable [OF refl, of evaluator_registry example_policies
      example_tx example_lib] nd ok ty
  have "(\<forall>r. execute example_lib ?rules example_tx = Inr r \<longrightarrow>
           rules_evaluated r = map name ?rules)"
    and "\<exists>r. execute example_lib ?rules example_tx = Inr r"
    by blast+
  then obtain r where r: "execute example_lib ?rules example_tx = Inr r"
    "rules_evaluated r = map name ?rules" by blast
  have "map name ?rules = [''whitelist'', ''Velocity'']"
    unfolding example_load by simp
  with r have "\<exists>r. execute example_lib ?rules example_tx = Inr r
        \<and> rules_evaluated r = [''whitelist'', ''Velocity'']" by auto
  with example_load show ?thesis by (rule conjI)
qed

subsection \<open>The whitelist rule\<close>

lemma py_mul_int_truthy: "truthy q \<Longrightarrow> \<exists>secs. py_mul_int q k = Inr secs"
  by (cases q) simp_all

text \<open>
  Claim C6, as the code has it. The whitelist rule allows a whitelisted address without
  conditions. For a new address that is not whitelisted it blocks in mode
  \<open>block_unknown\<close>; in any other mode it warns of the new address and, if
  \<open>quarantine_hours_for_new\<close> is set to a value that is not zero, allows with a delay of
  that many hours in seconds (before 2FA is looked at), else, if \<open>require_2fa_for_new\<close>
  is set, allows and requires \<open>2fa_required\<close>, else allows with the warning only. A known
  address that is not whitelisted is allowed with an advisory warning. A quarantine of
  zero hours counts as no quarantine.
\<close>

theorem whitelist_branches:
  assumes tx: "tx = transaction ctx"
    and mode: "mode = get_default cfg ''mode'' (VStr ''warn_unknown'')"
    and q: "quarantine_hours = get cfg ''quarantine_hours_for_new''"
    and r2: "require_2fa_new = get_default cfg ''require_2fa_for_new'' (VBool False)"
    and w: "new_warning =
              ''This is a new address not in your whitelist: '' @ take 10 (to_address tx) @ ''...''"
  shows "(address_in_whitelist tx \<longrightarrow>
            whitelist_evaluate cfg ctx =
              Inr \<lparr>allowed = True, require_2fa = False, delay_seconds = VNone, warnings = [],
                   required_actions = [], reason = NoReason\<rparr>)
     \<and> (\<not> address_in_whitelist tx \<and> is_new_address tx \<and> mode = VStr ''block_unknown'' \<longrightarrow>
            whitelist_evaluate cfg ctx =
              Inr \<lparr>allowed = False, require_2fa = False, delay_seconds = VNone, warnings = [],
                   required_actions = [], reason = NotInWhitelist (take 10 (to_address tx))\<rparr>)
     \<and> (\<not> address_in_whitelist tx \<and> is_new_address tx \<and> mode \<noteq> VStr ''block_unknown''
          \<and> truthy quarantine_hours \<longrightarrow>
            (\<exists>seconds. py_mul_int quarantine_hours 3600 = Inr seconds
               \<and> (\<forall>h. quarantine_hours = VInt h \<longrightarrow> seconds = VInt (h * 3600))
               \<and> whitelist_evaluate cfg ctx =
                   Inr \<lparr>allowed = True, require_2fa = False, delay_seconds = seconds,
                        warnings = [new_warning], required_actions = [],
                        reason = Quarantine quarantine_hours\<rparr>))
     \<and> (\<not> address_in_whitelist tx \<and> is_new_address tx \<and> mode \<noteq> VStr ''block_unknown''
          \<and> \<not> truthy quarantine_hours \<and> truthy require_2fa_new \<longrightarrow>
            whitelist_evaluate cfg ctx =
              Inr \<lparr>allowed = True, require_2fa = True, delay_seconds = VNone,
                   warnings = [new_warning], required_actions = [''2fa_required''],
                   reason = TwoFaNewAddress\<rparr>)
     \<and> (\<not> address_in_whitelist tx \<and> is_new_address tx \<and> mode \<noteq> VStr ''block_unknown''
          \<and> \<not> truthy quarantine_hours \<and> \<not> truthy require_2fa_new \<longrightarrow>
            whitelist_evaluate cfg ctx =
              Inr \<lparr>allowed = True, require_2fa = False, delay_seconds = VNone,
                   warnings = [new_warning], required_actions = [], reason = NoReason\<rparr>)
     \<and> (\<not> address_in_whitelist tx \<and> \<not> is_new_address tx \<longrightarrow>
            whitelist_evaluate cfg ctx =
              Inr \<lparr>allowed = True, require_2fa = False, delay_seconds = VNone,
                   warnings = [''Consider adding frequently used addresses to your whitelist''],
                   required_actions = [], reason = NoReason\<rparr>)"
proof -
  have p1: "address_in_whitelist tx \<longrightarrow>
            whitelist_evaluate cfg ctx =
              Inr \<lparr>allowed = True, require_2fa = False, delay_seconds = VNone, warnings = [],
                   required_actions = [], reason = NoReason\<rparr>"
    unfolding whitelist_evaluate_def Let_def using tx
    by (simp add: PolicyDecision_allow_def)
  have p2: "\<not> address_in_whitelist tx \<and> is_new_address tx \<and> mode = VStr ''block_unknown'' \<longrightarrow>
            whitelist_evaluate cfg ctx =
              Inr \<lparr>allowed = False, require_2fa = False, delay_seconds = VNone, warnings = [],
                   required_actions = [], reason = NotInWhitelist (take 10 (to_address tx))\<rparr>"
    unfolding whitelist_evaluate_def Let_def using tx mode
    by (simp add: PolicyDecision_block_def)
  have p3: "\<not> address_in_whitelist tx \<and> is_new_address tx \<and> mode \<noteq> VStr ''block_unknown''
          \<and> truthy quarantine_hours \<longrightarrow>
            (\<exists>seconds. py_mul_int quarantine_hours 3600 = Inr seconds
               \<and> (\<forall>h. quarantine_hours = VInt h \<longrightarrow> seconds = VInt (h * 3600))
               \<and> whitelist_evaluate cfg ctx =
                   Inr \<lparr>allowed = True, require_2fa = False, delay_seconds = seconds,
                        warnings = [new_warning], required_actions = [],
                        reason = Quarantine quarantine_hours\<rparr>)"
  proof
    assume a: "\<not> address_in_whitelist tx \<and> is_new_address tx \<and> mode \<noteq> VStr ''block_unknown''
          \<and> truthy quarantine_hours"
    then obtain seconds where s: "py_mul_int quarantine_hours 3600 = Inr seconds"
      using py_mul_int_truthy by blast
    have i: "\<forall>h. quarantine_hours = VInt h \<longrightarrow> seconds = VInt (h * 3600)"
      using s by auto
    have "whitelist_evaluate cfg ctx =
        Inr \<lparr>allowed = True, require_2fa = False, delay_seconds = seconds,
             warnings = [new_warning], required_actions = [],
             reason = Quarantine quarantine_hours\<rparr>"
      unfolding whitelist_evaluate_def Let_def using a tx mode q w s by simp
    with s i show "\<exists>seconds. py_mul_int quarantine_hours 3600 = Inr seconds
               \<and> (\<forall>h. quarantine_hours = VInt h \<longrightarrow> seconds = VInt (h * 3600))
               \<and> whitelist_evaluate cfg ctx =
                   Inr \<lparr>allowed = True, require_2fa = False, delay_seconds = seconds,
                        warnings = [new_warning], required_actions = [],
                        reason = Quarantine quarantine_hours\<rparr>" by blast
  qed
  have p4: "\<not> address_in_whitelist tx \<and> is_new_address tx \<and> mode \<noteq> VStr ''block_unknown''
          \<and> \<not> truthy quarantine_hours \<and> truthy require_2fa_new \<longrightarrow>
            whitelist_evaluate cfg ctx =
              Inr \<lparr>allowed = True, require_2fa = True, delay_seconds = VNone,
                   warnings = [new_warning], required_actions = [''2fa_required''],
                   reason = TwoFaNewAddress\<rparr>"
    unfolding whitelist_evaluate_def Let_def using tx mode q r2 w by simp
  have p5: "\<not> address_in_whitelist tx \<and> is_new_address tx \<and> mode \<noteq> VStr ''block_unknown''
          \<and> \<not> truthy quarantine_hours \<and> \<not> truthy require_2fa_new \<longrightarrow>
            whitelist_evaluate cfg ctx =
              Inr \<lparr>allowed = True, require_2fa = False, delay_seconds = VNone,
                   warnings = [new_warning], required_actions = [], reason = NoReason\<rparr>"
    unfolding whitelist_evaluate_def Let_def using tx mode q r2 w
    by (simp add: PolicyDecision_allow_def)
  have p6: "\<not> address_in_whitelist tx \<and> \<not> is_new_address tx \<longrightarrow>
            whitelist_evaluate cfg ctx =
              Inr \<lparr>allowed = True, require_2fa = False, delay_seconds = VNone,
                   warnings = [''Consider adding frequently used addresses to your whitelist''],
                   required_actions = [], reason = NoReason\<rparr>"
    unfolding whitelist_evaluate_def Let_def using tx
    by (simp add: PolicyDecision_allow_def)
  from p1 p2 p3 p4 p5 p6 show ?thesis by (intro conjI)
qed

text \<open>
  Scenario F of the specification: mode \<open>warn_unknown\<close> with a quarantine of 24 hours, a
  new address that is not whitelisted: allowed, with a delay of 86400 seconds.
\<close>

theorem whitelist_branches_witness:
  "whitelist_evaluate example_quarantine (context_of example_tx) =
     Inr \<lparr>allowed = True, require_2fa = False, delay_seconds = VInt 86400,
          warnings = [''This is a new address not in your whitelist: 0x742d35Cc...''],
          required_actions = [], reason = Quarantine (VInt 24)\<rparr>"
proof -
  let ?ctx = "context_of example_tx"
  have tx: "example_tx = transaction ?ctx" by (simp add: context_of_def)
  have mode: "VStr ''warn_unknown'' = get_default example_quarantine ''mode'' (VStr ''warn_unknown'')"
    by (simp add: get_default_def example_quarantine_def)
  have q: "VInt 24 = get example_quarantine ''quarantine_hours_for_new''"
    by (simp add: get_def example_quarantine_def)
  have r2: "VBool False = get_default example_quarantine ''require_2fa_for_new'' (VBool False)"
    by (simp add: get_default_def example_quarantine_def)
  have w: "''This is a new address not in your whitelist: 0x742d35Cc...'' =
      ''This is a new address not in your whitelist: '' @ take 10 (to_address example_tx) @ ''...''"
    by (simp add: example_tx_def)
  have side: "\<not> address_in_whitelist example_tx \<and> is_new_address example_tx
      \<and> VStr ''warn_unknown'' \<noteq> VStr ''block_unknown'' \<and> truthy (VInt 24)"
    by (simp add: example_tx_def)
  note c3 = whitelist_branches [OF tx mode q r2 w, THEN conjunct2, THEN conjunct2,
      THEN conjunct1, THEN mp, OF side]
  from c3 obtain seconds where s:
    "py_mul_int (VInt 24) 3600 = Inr seconds
     \<and> (\<forall>h. VInt 24 = VInt h \<longrightarrow> seconds = VInt (h * 3600))
     \<and> whitelist_evaluate example_quarantine ?ctx =
       Inr \<lparr>allowed = True, require_2fa = False, delay_seconds = seconds,
            warnings = [''This is a new address not in your whitelist: 0x742d35Cc...''],
            required_actions = [], reason = Quarantine (VInt 24)\<rparr>" ..
  note s2 = s [THEN conjunct2, THEN conjunct1]
  note s3 = s [THEN conjunct2, THEN conjunct2]
  from s2 have sec: "seconds = VInt 86400" by simp
  from s3 show ?thesis unfolding sec .
qed

text \<open>
  The claim as stated fails: with \<open>quarantine_hours_for_new = 0\<close> set and 2FA for new
  addresses, the rule returns no delay of 0 seconds but the 2FA requirement.
\<close>

theorem whitelist_zero_quarantine_counterexample:
  "whitelist_evaluate example_zero_quarantine (context_of example_tx) =
     Inr \<lparr>allowed = True, require_2fa = True, delay_seconds = VNone,
          warnings = [''This is a new address not in your whitelist: 0x742d35Cc...''],
          required_actions = [''2fa_required''], reason = TwoFaNewAddress\<rparr>"
  by (simp add: whitelist_evaluate_def context_of_def example_tx_def get_def get_default_def
      example_zero_quarantine_def)

subsection \<open>The timelock rule\<close>

lemma py_compare_int:
  "py_le (VInt a) (VInt b) = Inr (a \<le> b)"
  "py_lt (VInt a) (VInt b) = Inr (a < b)"
  "py_ge (VInt a) (VInt b) = Inr (b \<le> a)"
  by (simp_all add: py_le_def py_lt_def py_ge_def)

lemma is_in_blocked_period_int:
  "is_in_blocked_period h (VInt s) (VInt e) =
     Inr (if s \<le> e then s \<le> h \<and> h < e else s \<le> h \<or> h < e)"
  by (simp add: is_in_blocked_period_def py_compare_int)

lemma timelock_weekend:
  assumes "truthy (get_default cfg ''block_weekends'' (VBool False))"
    and "5 \<le> weekday (local_time L cfg ctx)"
  shows "timelock_evaluate L cfg ctx = Inr (PolicyDecision_block WeekendBlock)"
  unfolding timelock_evaluate_def Let_def using assms by simp

lemma timelock_hours:
  assumes nw: "\<not> (truthy (get_default cfg ''block_weekends'' (VBool False))
              \<and> 5 \<le> weekday (local_time L cfg ctx))"
    and st: "get cfg ''block_start_hour'' = VInt s"
    and en: "get cfg ''block_end_hour'' = VInt e"
  shows "timelock_evaluate L cfg ctx =
     (if (if s \<le> e then s \<le> hour (local_time L cfg ctx) \<and> hour (local_time L cfg ctx) < e
          else s \<le> hour (local_time L cfg ctx) \<or> hour (local_time L cfg ctx) < e)
      then Inr (PolicyDecision_block
                  (HourBlock (VInt s) (VInt e) (get_default cfg ''timezone'' (VStr ''UTC''))
                     (VInt (if hour (local_time L cfg ctx) < e
                            then e - hour (local_time L cfg ctx)
                            else (24 - hour (local_time L cfg ctx)) + e))))
      else Inr (PolicyDecision_allow []))"
proof -
  have c: "(truthy (get_default cfg ''block_weekends'' (VBool False))
      \<and> 5 \<le> weekday (local_time L cfg ctx)) = False"
    using nw by simp
  have later: "py_gt (VInt e) (VInt (hour (local_time L cfg ctx))) =
      Inr (hour (local_time L cfg ctx) < e)"
    by (simp add: py_gt_def py_compare_int)
  have until: "e + (24 - hour (local_time L cfg ctx)) = (24 - hour (local_time L cfg ctx)) + e"
    by simp
  show ?thesis
    unfolding timelock_evaluate_def Let_def c st en is_in_blocked_period_int later
    by (simp add: py_sub_int_def until)
qed

lemma timelock_unset:
  assumes nw: "\<not> (truthy (get_default cfg ''block_weekends'' (VBool False))
              \<and> 5 \<le> weekday (local_time L cfg ctx))"
    and un: "get cfg ''block_start_hour'' = VNone \<or> get cfg ''block_end_hour'' = VNone"
  shows "timelock_evaluate L cfg ctx = Inr (PolicyDecision_allow [])"
proof -
  have c: "(truthy (get_default cfg ''block_weekends'' (VBool False))
      \<and> 5 \<le> weekday (local_time L cfg ctx)) = False"
    using nw by simp
  have u: "(get cfg ''block_start_hour'' \<noteq> VNone \<and> get cfg ''block_end_hour'' \<noteq> VNone) = False"
    using un by auto
  show ?thesis
    unfolding timelock_evaluate_def Let_def c u by simp
qed

text \<open>The branches of the rule, in terms of the time that it reads.\<close>

lemma timelock_cases:
  assumes cur: "current = local_time L cfg ctx"
    and wd: "weekday current \<le> 6"
    and bw: "block_weekends = get_default cfg ''block_weekends'' (VBool False)"
    and we: "weekend = (truthy block_weekends \<and> (weekday current = 5 \<or> weekday current = 6))"
    and bl: "blocked = (if s \<le> e then s \<le> hour current \<and> hour current < e
                        else s \<le> hour current \<or> hour current < e)"
    and hu: "hours_until = (if hour current < e then e - hour current
                            else (24 - hour current) + e)"
  shows "(weekend \<longrightarrow>
            timelock_evaluate L cfg ctx =
              Inr \<lparr>allowed = False, require_2fa = False, delay_seconds = VNone, warnings = [],
                   required_actions = [], reason = WeekendBlock\<rparr>)
     \<and> (\<not> weekend \<and> get cfg ''block_start_hour'' = VInt s
          \<and> get cfg ''block_end_hour'' = VInt e \<and> blocked \<longrightarrow>
            timelock_evaluate L cfg ctx =
              Inr \<lparr>allowed = False, require_2fa = False, delay_seconds = VNone, warnings = [],
                   required_actions = [],
                   reason = HourBlock (VInt s) (VInt e)
                              (get_default cfg ''timezone'' (VStr ''UTC''))
                              (VInt hours_until)\<rparr>)
     \<and> (\<not> weekend \<and> get cfg ''block_start_hour'' = VInt s
          \<and> get cfg ''block_end_hour'' = VInt e \<and> \<not> blocked \<longrightarrow>
            timelock_evaluate L cfg ctx =
              Inr \<lparr>allowed = True, require_2fa = False, delay_seconds = VNone, warnings = [],
                   required_actions = [], reason = NoReason\<rparr>)
     \<and> (\<not> weekend \<and> (get cfg ''block_start_hour'' = VNone
                       \<or> get cfg ''block_end_hour'' = VNone) \<longrightarrow>
            timelock_evaluate L cfg ctx =
              Inr \<lparr>allowed = True, require_2fa = False, delay_seconds = VNone, warnings = [],
                   required_actions = [], reason = NoReason\<rparr>)"
proof -
  have weq: "weekend =
      (truthy (get_default cfg ''block_weekends'' (VBool False))
       \<and> 5 \<le> weekday (local_time L cfg ctx))"
    unfolding we bw using wd unfolding cur by auto
  have p1: "weekend \<longrightarrow>
            timelock_evaluate L cfg ctx =
              Inr \<lparr>allowed = False, require_2fa = False, delay_seconds = VNone, warnings = [],
                   required_actions = [], reason = WeekendBlock\<rparr>"
  proof
    assume weekend
    then have a: "truthy (get_default cfg ''block_weekends'' (VBool False))"
      "5 \<le> weekday (local_time L cfg ctx)" unfolding weq by simp_all
    show "timelock_evaluate L cfg ctx =
              Inr \<lparr>allowed = False, require_2fa = False, delay_seconds = VNone, warnings = [],
                   required_actions = [], reason = WeekendBlock\<rparr>"
      unfolding timelock_weekend [OF a] by (simp add: PolicyDecision_block_def)
  qed
  have p2: "\<not> weekend \<and> get cfg ''block_start_hour'' = VInt s
          \<and> get cfg ''block_end_hour'' = VInt e \<and> blocked \<longrightarrow>
            timelock_evaluate L cfg ctx =
              Inr \<lparr>allowed = False, require_2fa = False, delay_seconds = VNone, warnings = [],
                   required_actions = [],
                   reason = HourBlock (VInt s) (VInt e)
                              (get_default cfg ''timezone'' (VStr ''UTC''))
                              (VInt hours_until)\<rparr>"
  proof (intro impI, elim conjE)
    assume nw: "\<not> weekend" and st: "get cfg ''block_start_hour'' = VInt s"
      and en: "get cfg ''block_end_hour'' = VInt e" and b: blocked
    from nw have nw': "\<not> (truthy (get_default cfg ''block_weekends'' (VBool False))
              \<and> 5 \<le> weekday (local_time L cfg ctx))" unfolding weq .
    from b have b': "(if s \<le> e then s \<le> hour (local_time L cfg ctx) \<and> hour (local_time L cfg ctx) < e
          else s \<le> hour (local_time L cfg ctx) \<or> hour (local_time L cfg ctx) < e)"
      unfolding bl cur .
    show "timelock_evaluate L cfg ctx =
              Inr \<lparr>allowed = False, require_2fa = False, delay_seconds = VNone, warnings = [],
                   required_actions = [],
                   reason = HourBlock (VInt s) (VInt e)
                              (get_default cfg ''timezone'' (VStr ''UTC''))
                              (VInt hours_until)\<rparr>"
      unfolding timelock_hours [OF nw' st en] if_P [OF b'] hu cur
      by (simp add: PolicyDecision_block_def)
  qed
  have p3: "\<not> weekend \<and> get cfg ''block_start_hour'' = VInt s
          \<and> get cfg ''block_end_hour'' = VInt e \<and> \<not> blocked \<longrightarrow>
            timelock_evaluate L cfg ctx =
              Inr \<lparr>allowed = True, require_2fa = False, delay_seconds = VNone, warnings = [],
                   required_actions = [], reason = NoReason\<rparr>"
  proof (intro impI, elim conjE)
    assume nw: "\<not> weekend" and st: "get cfg ''block_start_hour'' = VInt s"
      and en: "get cfg ''block_end_hour'' = VInt e" and b: "\<not> blocked"
    from nw have nw': "\<not> (truthy (get_default cfg ''block_weekends'' (VBool False))
              \<and> 5 \<le> weekday (local_time L cfg ctx))" unfolding weq .
    from b have b': "\<not> (if s \<le> e then s \<le> hour (local_time L cfg ctx) \<and> hour (local_time L cfg ctx) < e
          else s \<le> hour (local_time L cfg ctx) \<or> hour (local_time L cfg ctx) < e)"
      unfolding bl cur .
    show "timelock_evaluate L cfg ctx =
              Inr \<lparr>allowed = True, require_2fa = False, delay_seconds = VNone, warnings = [],
                   required_actions = [], reason = NoReason\<rparr>"
      unfolding timelock_hours [OF nw' st en] if_not_P [OF b']
      by (simp add: PolicyDecision_allow_def)
  qed
  have p4: "\<not> weekend \<and> (get cfg ''block_start_hour'' = VNone
                       \<or> get cfg ''block_end_hour'' = VNone) \<longrightarrow>
            timelock_evaluate L cfg ctx =
              Inr \<lparr>allowed = True, require_2fa = False, delay_seconds = VNone, warnings = [],
                   required_actions = [], reason = NoReason\<rparr>"
  proof (intro impI, elim conjE)
    assume nw: "\<not> weekend"
      and un: "get cfg ''block_start_hour'' = VNone \<or> get cfg ''block_end_hour'' = VNone"
    from nw have nw': "\<not> (truthy (get_default cfg ''block_weekends'' (VBool False))
              \<and> 5 \<le> weekday (local_time L cfg ctx))" unfolding weq .
    show "timelock_evaluate L cfg ctx =
              Inr \<lparr>allowed = True, require_2fa = False, delay_seconds = VNone, warnings = [],
                   required_actions = [], reason = NoReason\<rparr>"
      unfolding timelock_unset [OF nw' un] by (simp add: PolicyDecision_allow_def)
  qed
  from p1 p2 p3 p4 show ?thesis by (intro conjI)
qed

text \<open>
  Claim C7. Let \<open>timezone_str\<close> be the configured zone, UTC when absent, and \<open>current\<close> the
  time of the context converted into that zone by the library, or the time of the context
  itself where the library does not know the zone. The timelock rule blocks first when
  \<open>block_weekends\<close> is set and the weekday of \<open>current\<close> is Saturday or Sunday. Otherwise,
  with both hour bounds configured (integers \<open>s\<close> and \<open>e\<close>), it blocks exactly when the hour
  of \<open>current\<close> lies in the interval from \<open>s\<close> up to but not including \<open>e\<close> if \<open>s \<le> e\<close>, or
  when the hour is at least \<open>s\<close> or less than \<open>e\<close> if \<open>s > e\<close>; the reason of the block
  reports \<open>e - hour\<close> hours if \<open>e > hour\<close>, else \<open>(24 - hour) + e\<close>. In every other case,
  also when a bound is absent or \<open>None\<close>, it allows.
\<close>

theorem timelock_window:
  assumes tz: "timezone_str = (case cfg ''timezone'' of None \<Rightarrow> VStr ''UTC'' | Some z \<Rightarrow> z)"
    and cur: "current = (case astimezone L timezone_str (ctx_current_time ctx) of
                           Some t \<Rightarrow> t
                         | None \<Rightarrow> ctx_current_time ctx)"
    and wd: "weekday current \<le> 6"
    and bw: "block_weekends = (case cfg ''block_weekends'' of None \<Rightarrow> VBool False
                               | Some b \<Rightarrow> b)"
    and we: "weekend = (truthy block_weekends \<and> (weekday current = 5 \<or> weekday current = 6))"
    and bl: "blocked = (if s \<le> e then s \<le> hour current \<and> hour current < e
                        else s \<le> hour current \<or> hour current < e)"
    and hu: "hours_until = (if hour current < e then e - hour current
                            else (24 - hour current) + e)"
  shows "(weekend \<longrightarrow>
            timelock_evaluate L cfg ctx =
              Inr \<lparr>allowed = False, require_2fa = False, delay_seconds = VNone, warnings = [],
                   required_actions = [], reason = WeekendBlock\<rparr>)
     \<and> (\<not> weekend \<and> cfg ''block_start_hour'' = Some (VInt s)
          \<and> cfg ''block_end_hour'' = Some (VInt e) \<and> blocked \<longrightarrow>
            timelock_evaluate L cfg ctx =
              Inr \<lparr>allowed = False, require_2fa = False, delay_seconds = VNone, warnings = [],
                   required_actions = [],
                   reason = HourBlock (VInt s) (VInt e) timezone_str (VInt hours_until)\<rparr>)
     \<and> (\<not> weekend \<and> cfg ''block_start_hour'' = Some (VInt s)
          \<and> cfg ''block_end_hour'' = Some (VInt e) \<and> \<not> blocked \<longrightarrow>
            timelock_evaluate L cfg ctx =
              Inr \<lparr>allowed = True, require_2fa = False, delay_seconds = VNone, warnings = [],
                   required_actions = [], reason = NoReason\<rparr>)
     \<and> (\<not> weekend \<and> (cfg ''block_start_hour'' = None \<or> cfg ''block_start_hour'' = Some VNone
                       \<or> cfg ''block_end_hour'' = None
                       \<or> cfg ''block_end_hour'' = Some VNone) \<longrightarrow>
            timelock_evaluate L cfg ctx =
              Inr \<lparr>allowed = True, require_2fa = False, delay_seconds = VNone, warnings = [],
                   required_actions = [], reason = NoReason\<rparr>)"
proof -
  have tz': "get_default cfg ''timezone'' (VStr ''UTC'') = timezone_str"
    unfolding tz get_default_def ..
  have cur': "current = local_time L cfg ctx"
    unfolding local_time_def Let_def tz' cur ..
  have bw': "block_weekends = get_default cfg ''block_weekends'' (VBool False)"
    unfolding bw get_default_def ..
  note c = timelock_cases [OF cur' wd bw' we bl hu, unfolded tz']
  have p1: "weekend \<longrightarrow>
            timelock_evaluate L cfg ctx =
              Inr \<lparr>allowed = False, require_2fa = False, delay_seconds = VNone, warnings = [],
                   required_actions = [], reason = WeekendBlock\<rparr>"
    by (rule c [THEN conjunct1])
  have p2: "\<not> weekend \<and> cfg ''block_start_hour'' = Some (VInt s)
          \<and> cfg ''block_end_hour'' = Some (VInt e) \<and> blocked \<longrightarrow>
            timelock_evaluate L cfg ctx =
              Inr \<lparr>allowed = False, require_2fa = False, delay_seconds = VNone, warnings = [],
                   required_actions = [],
                   reason = HourBlock (VInt s) (VInt e) timezone_str (VInt hours_until)\<rparr>"
  proof (intro impI, elim conjE)
    assume nw: "\<not> weekend" and st: "cfg ''block_start_hour'' = Some (VInt s)"
      and en: "cfg ''block_end_hour'' = Some (VInt e)" and b: blocked
    have st': "get cfg ''block_start_hour'' = VInt s" by (simp add: get_def st)
    have en': "get cfg ''block_end_hour'' = VInt e" by (simp add: get_def en)
    from nw st' en' b have side: "\<not> weekend \<and> get cfg ''block_start_hour'' = VInt s
          \<and> get cfg ''block_end_hour'' = VInt e \<and> blocked" by (intro conjI)
    show "timelock_evaluate L cfg ctx =
              Inr \<lparr>allowed = False, require_2fa = False, delay_seconds = VNone, warnings = [],
                   required_actions = [],
                   reason = HourBlock (VInt s) (VInt e) timezone_str (VInt hours_until)\<rparr>"
      by (rule c [THEN conjunct2, THEN conjunct1, THEN mp, OF side])
  qed
  have p3: "\<not> weekend \<and> cfg ''block_start_hour'' = Some (VInt s)
          \<and> cfg ''block_end_hour'' = Some (VInt e) \<and> \<not> blocked \<longrightarrow>
            timelock_evaluate L cfg ctx =
              Inr \<lparr>allowed = True, require_2fa = False, delay_seconds = VNone, warnings = [],
                   required_actions = [], reason = NoReason\<rparr>"
  proof (intro impI, elim conjE)
    assume nw: "\<not> weekend" and st: "cfg ''block_start_hour'' = Some (VInt s)"
      and en: "cfg ''block_end_hour'' = Some (VInt e)" and b: "\<not> blocked"
    have st': "get cfg ''block_start_hour'' = VInt s" by (simp add: get_def st)
    have en': "get cfg ''block_end_hour'' = VInt e" by (simp add: get_def en)
    from nw st' en' b have side: "\<not> weekend \<and> get cfg ''block_start_hour'' = VInt s
          \<and> get cfg ''block_end_hour'' = VInt e \<and> \<not> blocked" by (intro conjI)
    show "timelock_evaluate L cfg ctx =
              Inr \<lparr>allowed = True, require_2fa = False, delay_seconds = VNone, warnings = [],
                   required_actions = [], reason = NoReason\<rparr>"
      by (rule c [THEN conjunct2, THEN conjunct2, THEN conjunct1, THEN mp, OF side])
  qed
  have p4: "\<not> weekend \<and> (cfg ''block_start_hour'' = None \<or> cfg ''block_start_hour'' = Some VNone
                       \<or> cfg ''block_end_hour'' = None
                       \<or> cfg ''block_end_hour'' = Some VNone) \<longrightarrow>
            timelock_evaluate L cfg ctx =
              Inr \<lparr>allowed = True, require_2fa = False, delay_seconds = VNone, warnings = [],
                   required_actions = [], reason = NoReason\<rparr>"
  proof (intro impI, elim conjE)
    assume nw: "\<not> weekend"
      and un: "cfg ''block_start_hour'' = None \<or> cfg ''block_start_hour'' = Some VNone
               \<or> cfg ''block_end_hour'' = None \<or> cfg ''block_end_hour'' = Some VNone"
    from un have un': "get cfg ''block_start_hour'' = VNone \<or> get cfg ''block_end_hour'' = VNone"
      unfolding get_def by (auto split: option.splits)
    from nw un' have side: "\<not> weekend \<and> (get cfg ''block_start_hour'' = VNone
                       \<or> get cfg ''block_end_hour'' = VNone)" by (intro conjI)
    show "timelock_evaluate L cfg ctx =
              Inr \<lparr>allowed = True, require_2fa = False, delay_seconds = VNone, warnings = [],
                   required_actions = [], reason = NoReason\<rparr>"
      by (rule c [THEN conjunct2, THEN conjunct2, THEN conjunct2, THEN mp, OF side])
  qed
  from p1 p2 p3 p4 show ?thesis by (intro conjI)
qed

text \<open>
  Four cases with a library that knows UTC and Tokyo, nine hours ahead. A timelock from
  22:00 to 07:00 in Tokyo, on a Wednesday at 14:00 UTC: it is 23:00 in Tokyo, so the rule
  blocks, with 8 hours to go. A weekend block in Tokyo, on a Friday at 20:00 UTC: it is
  Saturday 05:00 in Tokyo, so the rule blocks. A timelock from 22:00 to 07:00 in a zone
  that the library does not know, at 14:00: the time of the context is taken as it is, and
  the rule allows. The same timelock with no zone configured, at 23:00 UTC: the zone is
  UTC, and the rule blocks, with 8 hours to go.
\<close>

theorem timelock_window_witness:
  "timelock_evaluate example_zones example_night_tokyo
     (context_of (example_tx\<lparr>current_time := \<lparr>hour = 14, weekday = 2\<rparr>\<rparr>)) =
     Inr \<lparr>allowed = False, require_2fa = False, delay_seconds = VNone, warnings = [],
          required_actions = [],
          reason = HourBlock (VInt 22) (VInt 7) (VStr ''Asia/Tokyo'') (VInt 8)\<rparr>
   \<and> timelock_evaluate example_zones example_weekend_tokyo
     (context_of (example_tx\<lparr>current_time := \<lparr>hour = 20, weekday = 4\<rparr>\<rparr>)) =
     Inr \<lparr>allowed = False, require_2fa = False, delay_seconds = VNone, warnings = [],
          required_actions = [], reason = WeekendBlock\<rparr>
   \<and> timelock_evaluate example_zones example_night_nowhere
     (context_of (example_tx\<lparr>current_time := \<lparr>hour = 14, weekday = 2\<rparr>\<rparr>)) =
     Inr \<lparr>allowed = True, require_2fa = False, delay_seconds = VNone, warnings = [],
          required_actions = [], reason = NoReason\<rparr>
   \<and> timelock_evaluate example_zones example_night
     (context_of (example_tx\<lparr>current_time := \<lparr>hour = 23, weekday = 2\<rparr>\<rparr>)) =
     Inr \<lparr>allowed = False, require_2fa = False, delay_seconds = VNone, warnings = [],
          required_actions = [],
          reason = HourBlock (VInt 22) (VInt 7) (VStr ''UTC'') (VInt 8)\<rparr>"
proof -
  have s1: "timelock_evaluate example_zones example_night_tokyo
     (context_of (example_tx\<lparr>current_time := \<lparr>hour = 14, weekday = 2\<rparr>\<rparr>)) =
     Inr \<lparr>allowed = False, require_2fa = False, delay_seconds = VNone, warnings = [],
          required_actions = [],
          reason = HourBlock (VInt 22) (VInt 7) (VStr ''Asia/Tokyo'') (VInt 8)\<rparr>"
  proof -
    let ?ctx = "context_of (example_tx\<lparr>current_time := \<lparr>hour = 14, weekday = 2\<rparr>\<rparr>)"
    let ?now = "\<lparr>hour = 23, weekday = 2\<rparr>"
    have tz: "VStr ''Asia/Tokyo'' =
        (case example_night_tokyo ''timezone'' of None \<Rightarrow> VStr ''UTC'' | Some z \<Rightarrow> z)"
      by (simp add: example_night_tokyo_def)
    have cur: "?now =
        (case astimezone example_zones (VStr ''Asia/Tokyo'') (ctx_current_time ?ctx) of
           Some t \<Rightarrow> t
         | None \<Rightarrow> ctx_current_time ?ctx)"
      by (simp add: example_zones_def context_of_def)
    have wd: "weekday ?now \<le> 6" by simp
    have bw: "VBool False = (case example_night_tokyo ''block_weekends'' of
                               None \<Rightarrow> VBool False | Some b \<Rightarrow> b)"
      by (simp add: example_night_tokyo_def)
    have we: "False = (truthy (VBool False) \<and> (weekday ?now = 5 \<or> weekday ?now = 6))"
      by simp
    have bl: "True = (if (22::int) \<le> 7 then 22 \<le> hour ?now \<and> hour ?now < 7
                      else 22 \<le> hour ?now \<or> hour ?now < 7)"
      by simp
    have hu: "(8::int) = (if hour ?now < 7 then 7 - hour ?now else (24 - hour ?now) + 7)"
      by simp
    have side: "\<not> False \<and> example_night_tokyo ''block_start_hour'' = Some (VInt 22)
        \<and> example_night_tokyo ''block_end_hour'' = Some (VInt 7) \<and> True"
      by (simp add: example_night_tokyo_def)
    show ?thesis
      by (rule timelock_window [OF tz cur wd bw we bl hu, THEN conjunct2, THEN conjunct1,
            THEN mp, OF side])
  qed
  have s2: "timelock_evaluate example_zones example_weekend_tokyo
     (context_of (example_tx\<lparr>current_time := \<lparr>hour = 20, weekday = 4\<rparr>\<rparr>)) =
     Inr \<lparr>allowed = False, require_2fa = False, delay_seconds = VNone, warnings = [],
          required_actions = [], reason = WeekendBlock\<rparr>"
  proof -
    let ?ctx = "context_of (example_tx\<lparr>current_time := \<lparr>hour = 20, weekday = 4\<rparr>\<rparr>)"
    let ?now = "\<lparr>hour = 5, weekday = 5\<rparr>"
    have tz: "VStr ''Asia/Tokyo'' =
        (case example_weekend_tokyo ''timezone'' of None \<Rightarrow> VStr ''UTC'' | Some z \<Rightarrow> z)"
      by (simp add: example_weekend_tokyo_def)
    have cur: "?now =
        (case astimezone example_zones (VStr ''Asia/Tokyo'') (ctx_current_time ?ctx) of
           Some t \<Rightarrow> t
         | None \<Rightarrow> ctx_current_time ?ctx)"
      by (simp add: example_zones_def context_of_def)
    have wd: "weekday ?now \<le> 6" by simp
    have bw: "VBool True = (case example_weekend_tokyo ''block_weekends'' of
                               None \<Rightarrow> VBool False | Some b \<Rightarrow> b)"
      by (simp add: example_weekend_tokyo_def)
    have we: "True = (truthy (VBool True) \<and> (weekday ?now = 5 \<or> weekday ?now = 6))"
      by simp
    have bl: "False = (if (0::int) \<le> 0 then 0 \<le> hour ?now \<and> hour ?now < 0
                       else 0 \<le> hour ?now \<or> hour ?now < 0)"
      by simp
    have hu: "(19::int) = (if hour ?now < 0 then 0 - hour ?now else (24 - hour ?now) + 0)"
      by simp
    show ?thesis
      by (rule timelock_window [OF tz cur wd bw we bl hu, THEN conjunct1, THEN mp, OF TrueI])
  qed
  have s3: "timelock_evaluate example_zones example_night_nowhere
     (context_of (example_tx\<lparr>current_time := \<lparr>hour = 14, weekday = 2\<rparr>\<rparr>)) =
     Inr \<lparr>allowed = True, require_2fa = False, delay_seconds = VNone, warnings = [],
          required_actions = [], reason = NoReason\<rparr>"
  proof -
    let ?ctx = "context_of (example_tx\<lparr>current_time := \<lparr>hour = 14, weekday = 2\<rparr>\<rparr>)"
    let ?now = "\<lparr>hour = 14, weekday = 2\<rparr>"
    have tz: "VStr ''Nowhere'' =
        (case example_night_nowhere ''timezone'' of None \<Rightarrow> VStr ''UTC'' | Some z \<Rightarrow> z)"
      by (simp add: example_night_nowhere_def)
    have cur: "?now =
        (case astimezone example_zones (VStr ''Nowhere'') (ctx_current_time ?ctx) of
           Some t \<Rightarrow> t
         | None \<Rightarrow> ctx_current_time ?ctx)"
      by (simp add: example_zones_def context_of_def)
    have wd: "weekday ?now \<le> 6" by simp
    have bw: "VBool False = (case example_night_nowhere ''block_weekends'' of
                               None \<Rightarrow> VBool False | Some b \<Rightarrow> b)"
      by (simp add: example_night_nowhere_def)
    have we: "False = (truthy (VBool False) \<and> (weekday ?now = 5 \<or> weekday ?now = 6))"
      by simp
    have bl: "False = (if (22::int) \<le> 7 then 22 \<le> hour ?now \<and> hour ?now < 7
                       else 22 \<le> hour ?now \<or> hour ?now < 7)"
      by simp
    have hu: "(17::int) = (if hour ?now < 7 then 7 - hour ?now else (24 - hour ?now) + 7)"
      by simp
    have side: "\<not> False \<and> example_night_nowhere ''block_start_hour'' = Some (VInt 22)
        \<and> example_night_nowhere ''block_end_hour'' = Some (VInt 7) \<and> \<not> False"
      by (simp add: example_night_nowhere_def)
    show ?thesis
      by (rule timelock_window [OF tz cur wd bw we bl hu, THEN conjunct2, THEN conjunct2,
            THEN conjunct1, THEN mp, OF side])
  qed
  have s4: "timelock_evaluate example_zones example_night
     (context_of (example_tx\<lparr>current_time := \<lparr>hour = 23, weekday = 2\<rparr>\<rparr>)) =
     Inr \<lparr>allowed = False, require_2fa = False, delay_seconds = VNone, warnings = [],
          required_actions = [],
          reason = HourBlock (VInt 22) (VInt 7) (VStr ''UTC'') (VInt 8)\<rparr>"
  proof -
    let ?ctx = "context_of (example_tx\<lparr>current_time := \<lparr>hour = 23, weekday = 2\<rparr>\<rparr>)"
    let ?now = "\<lparr>hour = 23, weekday = 2\<rparr>"
    have tz: "VStr ''UTC'' =
        (case example_night ''timezone'' of None \<Rightarrow> VStr ''UTC'' | Some z \<Rightarrow> z)"
      by (simp add: example_night_def)
    have cur: "?now =
        (case astimezone example_zones (VStr ''UTC'') (ctx_current_time ?ctx) of
           Some t \<Rightarrow> t
         | None \<Rightarrow> ctx_current_time ?ctx)"
      by (simp add: example_zones_def context_of_def)
    have wd: "weekday ?now \<le> 6" by simp
    have bw: "VBool False = (case example_night ''block_weekends'' of
                               None \<Rightarrow> VBool False | Some b \<Rightarrow> b)"
      by (simp add: example_night_def)
    have we: "False = (truthy (VBool False) \<and> (weekday ?now = 5 \<or> weekday ?now = 6))"
      by simp
    have bl: "True = (if (22::int) \<le> 7 then 22 \<le> hour ?now \<and> hour ?now < 7
                      else 22 \<le> hour ?now \<or> hour ?now < 7)"
      by simp
    have hu: "(8::int) = (if hour ?now < 7 then 7 - hour ?now else (24 - hour ?now) + 7)"
      by simp
    have side: "\<not> False \<and> example_night ''block_start_hour'' = Some (VInt 22)
        \<and> example_night ''block_end_hour'' = Some (VInt 7) \<and> True"
      by (simp add: example_night_def)
    show ?thesis
      by (rule timelock_window [OF tz cur wd bw we bl hu, THEN conjunct2, THEN conjunct1,
            THEN mp, OF side])
  qed
  from s1 s2 s3 s4 show ?thesis by (intro conjI)
qed

subsection \<open>The evaluator facade\<close>

lemma whitelist_known_allow:
  "address_in_whitelist (transaction ctx) \<Longrightarrow>
   whitelist_evaluate cfg ctx = Inr (PolicyDecision_allow [])"
  unfolding whitelist_evaluate_def Let_def by simp

lemma new_warning_not_advisory:
  "''This is a new address not in your whitelist: '' @ a @ ''...'' \<noteq>
   ''Consider adding frequently used addresses to your whitelist''"
  by simp

lemma whitelist_new_no_advice:
  assumes nw: "is_new_address (transaction ctx)"
    and res: "whitelist_evaluate cfg ctx = Inr d"
  shows "''Consider adding frequently used addresses to your whitelist'' \<notin> set (warnings d)"
proof (cases "address_in_whitelist (transaction ctx)")
  case True
  from whitelist_known_allow [OF True, of cfg] res have "d = PolicyDecision_allow []" by simp
  then show ?thesis by (simp add: PolicyDecision_allow_def)
next
  case False
  let ?w = "''This is a new address not in your whitelist: '' @
      take 10 (to_address (transaction ctx)) @ ''...''"
  have "warnings d = [] \<or> warnings d = [?w]"
  proof (cases "truthy (get cfg ''quarantine_hours_for_new'')")
    case True
    then obtain secs where "py_mul_int (get cfg ''quarantine_hours_for_new'') 3600 = Inr secs"
      using py_mul_int_truthy by blast
    with res False nw True show ?thesis
      unfolding whitelist_evaluate_def Let_def
      by (auto simp: PolicyDecision_block_def split: if_splits)
  next
    case nq: False
    with res False nw show ?thesis
      unfolding whitelist_evaluate_def Let_def
      by (auto simp: PolicyDecision_block_def PolicyDecision_allow_def split: if_splits)
  qed
  then show ?thesis using new_warning_not_advisory by auto
qed

text \<open>
  Claim C9. \<open>evaluate_transaction\<close> runs the executor on a transaction context whose
  \<open>address_in_whitelist\<close> is the negation of \<open>is_new_address\<close>. So through the facade
  the whitelist rule allows every address that is not new without conditions, its
  advisory warning for a known address that is not whitelisted never comes out, and a new
  address is never whitelisted.
\<close>

theorem facade_whitelist_flag:
  assumes tx: "tx = evaluator_context now uid tier chn addr usd outflow is_new contract_call
                      verified duress"
  shows "evaluate_transaction L now uid tier policies chn addr usd outflow is_new contract_call
           verified duress =
           execute L (load_rules_from_config evaluator_registry policies) tx
     \<and> is_new_address tx = is_new
     \<and> address_in_whitelist tx = (\<not> is_new)
     \<and> (\<not> is_new \<longrightarrow>
           whitelist_evaluate cfg (context_of tx) =
             Inr \<lparr>allowed = True, require_2fa = False, delay_seconds = VNone, warnings = [],
                  required_actions = [], reason = NoReason\<rparr>)
     \<and> (\<forall>d. whitelist_evaluate cfg (context_of tx) = Inr d \<longrightarrow>
           ''Consider adding frequently used addresses to your whitelist'' \<notin> set (warnings d))
     \<and> (is_new \<longrightarrow> \<not> address_in_whitelist tx)"
proof -
  have p1: "evaluate_transaction L now uid tier policies chn addr usd outflow is_new
      contract_call verified duress =
      execute L (load_rules_from_config evaluator_registry policies) tx"
    unfolding tx evaluate_transaction_def ..
  have p2: "is_new_address tx = is_new"
    unfolding tx evaluator_context_def by simp
  have p3: "address_in_whitelist tx = (\<not> is_new)"
    unfolding tx evaluator_context_def by simp
  have t: "transaction (context_of tx) = tx" by (simp add: context_of_def)
  have p4: "\<not> is_new \<longrightarrow>
           whitelist_evaluate cfg (context_of tx) =
             Inr \<lparr>allowed = True, require_2fa = False, delay_seconds = VNone, warnings = [],
                  required_actions = [], reason = NoReason\<rparr>"
  proof
    assume "\<not> is_new"
    with p3 have "address_in_whitelist (transaction (context_of tx))" unfolding t by simp
    from whitelist_known_allow [OF this, of cfg]
    show "whitelist_evaluate cfg (context_of tx) =
             Inr \<lparr>allowed = True, require_2fa = False, delay_seconds = VNone, warnings = [],
                  required_actions = [], reason = NoReason\<rparr>"
      by (simp add: PolicyDecision_allow_def)
  qed
  have p5: "\<forall>d. whitelist_evaluate cfg (context_of tx) = Inr d \<longrightarrow>
           ''Consider adding frequently used addresses to your whitelist'' \<notin> set (warnings d)"
  proof (intro allI impI)
    fix d assume res: "whitelist_evaluate cfg (context_of tx) = Inr d"
    show "''Consider adding frequently used addresses to your whitelist'' \<notin> set (warnings d)"
    proof (cases is_new)
      case True
      with p2 have "is_new_address (transaction (context_of tx))" unfolding t by simp
      from whitelist_new_no_advice [OF this res] show ?thesis .
    next
      case False
      with p4 res have "d = \<lparr>allowed = True, require_2fa = False, delay_seconds = VNone,
          warnings = [], required_actions = [], reason = NoReason\<rparr>" by simp
      then show ?thesis by simp
    qed
  qed
  have p6: "is_new \<longrightarrow> \<not> address_in_whitelist tx" using p3 by simp
  from p1 p2 p3 p4 p5 p6 show ?thesis by (intro conjI)
qed

text \<open>
  A known address under a whitelist rule in mode \<open>block_unknown\<close>: through the facade it
  counts as whitelisted and is allowed without a warning.
\<close>

theorem facade_whitelist_flag_witness:
  "whitelist_evaluate [''mode'' \<mapsto> VStr ''block_unknown'']
     (context_of (evaluator_context \<lparr>hour = 12, weekday = 2\<rparr> ''user123'' ''humpback''
        ''ethereum'' ''0x123'' 5000 0 False False False False)) =
     Inr \<lparr>allowed = True, require_2fa = False, delay_seconds = VNone, warnings = [],
          required_actions = [], reason = NoReason\<rparr>"
proof -
  have side: "\<not> False" by simp
  note c = facade_whitelist_flag [OF refl, THEN conjunct2, THEN conjunct2, THEN conjunct2,
      THEN conjunct1, THEN mp, OF side]
  show ?thesis by (rule c)
qed

subsection \<open>The velocity rule\<close>

text \<open>
  A limit or a threshold that is a number is read as that number; an absent limit is
  \<open>Infinity\<close>; an absent threshold, or one that is \<open>None\<close>, is not set.
\<close>

lemma to_decimal_number: "number x = Some m \<Longrightarrow> to_decimal L x = Inr (Fin m)"
  by (cases x) simp_all

lemma limit_of_entry:
  assumes "(case cfg key of None \<Rightarrow> Some PInf | Some x \<Rightarrow> map_option Fin (number x)) = Some d"
  shows "limit_of L cfg key = Inr d" and "d \<noteq> NaN" and "d \<noteq> MInf"
  using assms
  by (auto simp: limit_of_def to_decimal_number split: option.splits)

lemma threshold_entry:
  assumes "(case cfg key of None \<Rightarrow> Some None | Some VNone \<Rightarrow> Some None
            | Some x \<Rightarrow> map_option Some (number x)) = Some th"
  shows "th = None \<Longrightarrow> get cfg key = VNone"
    and "th = Some t \<Longrightarrow> get cfg key \<noteq> VNone \<and> to_decimal L (get cfg key) = Inr (Fin t)"
proof -
  show "th = None \<Longrightarrow> get cfg key = VNone"
    using assms by (auto simp: get_def split: option.splits pyval.splits)
  show "th = Some t \<Longrightarrow> get cfg key \<noteq> VNone \<and> to_decimal L (get cfg key) = Inr (Fin t)"
    using assms by (auto simp: get_def split: option.splits pyval.splits)
qed

lemma amount_gt_above: "d \<noteq> NaN \<Longrightarrow> amount_gt x d = Inr (above x d)"
  by (cases d) (simp_all add: above_def)

lemma amount_gt_Fin: "amount_gt x (Fin t) = Inr (t < x)"
  by simp

text \<open>The rule as one chain of tests, for limits and thresholds that are decimals.\<close>

lemma velocity_normal_form:
  assumes md: "limit_of L cfg ''max_daily_usd'' = Inr max_daily" "max_daily \<noteq> NaN"
    and mt: "limit_of L cfg ''max_per_tx_usd'' = Inr max_per_tx" "max_per_tx \<noteq> NaN"
    and dl: "delay_threshold = None \<longrightarrow> get cfg ''delay_hours_above_usd'' = VNone"
            "\<forall>t. delay_threshold = Some t \<longrightarrow> get cfg ''delay_hours_above_usd'' \<noteq> VNone
               \<and> to_decimal L (get cfg ''delay_hours_above_usd'') = Inr (Fin t)"
    and tf: "twofa_threshold = None \<longrightarrow> get cfg ''require_2fa_above_usd'' = VNone"
            "\<forall>t. twofa_threshold = Some t \<longrightarrow> get cfg ''require_2fa_above_usd'' \<noteq> VNone
               \<and> to_decimal L (get cfg ''require_2fa_above_usd'') = Inr (Fin t)"
    and hrs: "get_default cfg ''delay_hours'' (VInt 24) = VInt hours"
    and sum: "decimal_add L (daily_outflow_usd (transaction ctx)) (value_usd (transaction ctx)) =
                Inr projected"
  shows "velocity_evaluate L cfg ctx =
     (if above (value_usd (transaction ctx)) max_per_tx
      then Inr (PolicyDecision_block (PerTxLimit (value_usd (transaction ctx)) max_per_tx))
      else if above projected max_daily
      then exn_bind (decimal_minus L max_daily (daily_outflow_usd (transaction ctx)))
             (\<lambda>remaining. exn_bind (max_zero remaining)
                (\<lambda>shown. Inr (PolicyDecision_block (DailyLimit shown))))
      else if (case delay_threshold of None \<Rightarrow> False
               | Some t \<Rightarrow> t < value_usd (transaction ctx))
      then Inr (PolicyDecision_delay (VInt (hours * 3600))
                  (DelayAbove (Fin (the delay_threshold)) (VInt hours)))
      else if (case twofa_threshold of None \<Rightarrow> False
               | Some t \<Rightarrow> t < value_usd (transaction ctx))
      then Inr (PolicyDecision_require_verification ''2fa_required'')
      else Inr (PolicyDecision_allow []))"
proof (cases delay_threshold)
  case dn: None
  with dl have d0: "get cfg ''delay_hours_above_usd'' = VNone" by simp
  show ?thesis
  proof (cases twofa_threshold)
    case None
    with tf have t0: "get cfg ''require_2fa_above_usd'' = VNone" by simp
    show ?thesis
      unfolding velocity_evaluate_def Let_def
      by (simp add: md mt sum dn None d0 t0 amount_gt_above)
  next
    case (Some t2)
    with tf have t0: "get cfg ''require_2fa_above_usd'' \<noteq> VNone"
      "to_decimal L (get cfg ''require_2fa_above_usd'') = Inr (Fin t2)" by simp_all
    show ?thesis
      unfolding velocity_evaluate_def Let_def
      by (simp add: md mt sum dn Some d0 t0 amount_gt_above)
  qed
next
  case ds: (Some t1)
  with dl have d0: "get cfg ''delay_hours_above_usd'' \<noteq> VNone"
    "to_decimal L (get cfg ''delay_hours_above_usd'') = Inr (Fin t1)" by simp_all
  show ?thesis
  proof (cases twofa_threshold)
    case None
    with tf have t0: "get cfg ''require_2fa_above_usd'' = VNone" by simp
    show ?thesis
      unfolding velocity_evaluate_def Let_def
      by (simp add: md mt sum ds None d0 t0 hrs amount_gt_above)
  next
    case (Some t2)
    with tf have t0: "get cfg ''require_2fa_above_usd'' \<noteq> VNone"
      "to_decimal L (get cfg ''require_2fa_above_usd'') = Inr (Fin t2)" by simp_all
    show ?thesis
      unfolding velocity_evaluate_def Let_def
      by (simp add: md mt sum ds Some d0 t0 hrs amount_gt_above)
  qed
qed



subsection \<open>Raising the amount\<close>

text \<open>
  The whitelist rule and the timelock rule do not read the amount; their delays are
  integers when the quarantine hours are.
\<close>

lemma whitelist_value_free:
  "whitelist_evaluate cfg (context_of (tx\<lparr>value_usd := v\<rparr>)) =
   whitelist_evaluate cfg (context_of tx)"
  by (simp add: whitelist_evaluate_def context_of_def Let_def)

lemma timelock_value_free:
  "timelock_evaluate L cfg (context_of (tx\<lparr>value_usd := v\<rparr>)) =
   timelock_evaluate L cfg (context_of tx)"
proof -
  have t: "local_time L cfg (context_of (tx\<lparr>value_usd := v\<rparr>)) = local_time L cfg (context_of tx)"
    by (simp add: local_time_def context_of_def split: option.splits)
  show ?thesis
    unfolding timelock_evaluate_def t ..
qed

lemma whitelist_typed:
  assumes "quarantine_ok cfg" and "whitelist_evaluate cfg ctx = Inr d"
  shows "int_or_none (delay_seconds d)"
proof (cases "cfg ''quarantine_hours_for_new''")
  case None
  then have "get cfg ''quarantine_hours_for_new'' = VNone" by (simp add: get_def)
  with assms(2) show ?thesis
    by (auto simp: whitelist_evaluate_def Let_def PolicyDecision_allow_def
        PolicyDecision_block_def split: if_splits)
next
  case (Some x)
  then have g: "get cfg ''quarantine_hours_for_new'' = x" by (simp add: get_def)
  from assms(1) Some have "int_or_none x" by (simp add: quarantine_ok_def)
  then show ?thesis using assms(2) unfolding g whitelist_evaluate_def Let_def g
    by (cases x) (auto simp: g PolicyDecision_allow_def PolicyDecision_block_def split: if_splits)
qed

lemma timelock_typed:
  assumes "timelock_evaluate L cfg ctx = Inr d"
  shows "int_or_none (delay_seconds d)"
proof -
  have "delay_seconds d = VNone"
    using assms unfolding timelock_evaluate_def Let_def
    by (auto simp: PolicyDecision_allow_def PolicyDecision_block_def exn_bind_def
        split: if_splits sum.splits)
  then show ?thesis by simp
qed

text \<open>The entries of a well-formed velocity configuration, as the rule reads them.\<close>

lemma limit_ok_entry:
  assumes "limit_ok cfg key"
  obtains d where "limit_of L cfg key = Inr d" and "d \<noteq> NaN"
proof -
  from assms obtain d where
    d: "(case cfg key of None \<Rightarrow> Some PInf | Some x \<Rightarrow> map_option Fin (number x)) = Some d"
    by (auto simp: limit_ok_def split: option.splits)
  from limit_of_entry(1) [where cfg = cfg and key = key and L = L, OF d]
    limit_of_entry(2) [where cfg = cfg and key = key, OF d] that
  show thesis by blast
qed

lemma threshold_ok_entry:
  assumes "threshold_ok cfg key"
  obtains th where "th = None \<longrightarrow> get cfg key = VNone"
    and "\<forall>t. th = Some t \<longrightarrow> get cfg key \<noteq> VNone \<and> to_decimal L (get cfg key) = Inr (Fin t)"
proof -
  from assms obtain th where
    th: "(case cfg key of None \<Rightarrow> Some None | Some VNone \<Rightarrow> Some None
            | Some x \<Rightarrow> map_option Some (number x)) = Some th"
    by (auto simp: threshold_ok_def split: option.splits pyval.splits)
  have a: "th = None \<longrightarrow> get cfg key = VNone"
    using threshold_entry(1) [where cfg = cfg and key = key, OF th] by blast
  have b: "\<forall>t. th = Some t \<longrightarrow> get cfg key \<noteq> VNone \<and> to_decimal L (get cfg key) = Inr (Fin t)"
    using threshold_entry(2) [where cfg = cfg and key = key and L = L, OF th] by blast
  from a b that show thesis by blast
qed

lemma delay_hours_ok_entry:
  assumes "delay_hours_ok cfg"
  obtains h where "get_default cfg ''delay_hours'' (VInt 24) = VInt h" and "h \<noteq> 0"
  using assms
  by (auto simp: delay_hours_ok_def get_default_def split: option.splits pyval.splits)

text \<open>A block, whether the difference that it reports can be computed or not.\<close>

lemma outcome_daily_block:
  "outcome rule (exn_bind (decimal_minus L md x)
      (\<lambda>remaining. exn_bind (max_zero remaining)
         (\<lambda>shown. Inr (PolicyDecision_block (DailyLimit shown))))) = BLOCK"
proof (cases "decimal_minus L md x")
  case (Inl e)
  then show ?thesis by (simp add: outcome_def)
next
  case (Inr remaining)
  then show ?thesis
    by (cases "max_zero remaining")
      (simp_all add: outcome_def asks_def blocks_def PolicyDecision_block_def)
qed

lemma outcome_simps:
  "outcome rule (Inr (PolicyDecision_block rs)) = BLOCK"
  "h \<noteq> 0 \<Longrightarrow> outcome rule (Inr (PolicyDecision_delay (VInt (h * 3600)) rs)) = DELAY"
  "outcome rule (Inr (PolicyDecision_require_verification a)) = REQUIRE_2FA"
  "outcome rule (Inr (PolicyDecision_allow [])) = ALLOW"
  by (simp_all add: outcome_def asks_def blocks_def delays_def asks_2fa_def warns_def
      PolicyDecision_block_def PolicyDecision_delay_def PolicyDecision_require_verification_def
      PolicyDecision_allow_def)

text \<open>
  The level of a well-configured velocity rule is decided by four tests on the amount and
  on the projected daily total.
\<close>

lemma velocity_level:
  assumes ok: "limit_ok cfg ''max_daily_usd''" "limit_ok cfg ''max_per_tx_usd''"
      "threshold_ok cfg ''delay_hours_above_usd''" "threshold_ok cfg ''require_2fa_above_usd''"
      "delay_hours_ok cfg"
  shows "\<exists>md mt dth tth. \<forall>ctx projected.
       decimal_add L (daily_outflow_usd (transaction ctx)) (value_usd (transaction ctx)) =
         Inr projected \<longrightarrow>
       restrictiveness (outcome rule (velocity_evaluate L cfg ctx)) =
         (if above (value_usd (transaction ctx)) mt then 4
          else if above projected md then 4
          else if (case dth of None \<Rightarrow> False | Some t \<Rightarrow> t < value_usd (transaction ctx)) then 3
          else if (case tth of None \<Rightarrow> False | Some t \<Rightarrow> t < value_usd (transaction ctx)) then 2
          else 0)
       \<and> (\<forall>d. velocity_evaluate L cfg ctx = Inr d \<longrightarrow> int_or_none (delay_seconds d))"
proof -
  from limit_ok_entry [OF ok(1), of L] obtain md where
    md: "limit_of L cfg ''max_daily_usd'' = Inr md" "md \<noteq> NaN" by blast
  from limit_ok_entry [OF ok(2), of L] obtain mt where
    mt: "limit_of L cfg ''max_per_tx_usd'' = Inr mt" "mt \<noteq> NaN" by blast
  from threshold_ok_entry [OF ok(3), of L] obtain dth where
    dl: "dth = None \<longrightarrow> get cfg ''delay_hours_above_usd'' = VNone"
      "\<forall>t. dth = Some t \<longrightarrow> get cfg ''delay_hours_above_usd'' \<noteq> VNone
          \<and> to_decimal L (get cfg ''delay_hours_above_usd'') = Inr (Fin t)" by blast
  from threshold_ok_entry [OF ok(4), of L] obtain tth where
    tf: "tth = None \<longrightarrow> get cfg ''require_2fa_above_usd'' = VNone"
      "\<forall>t. tth = Some t \<longrightarrow> get cfg ''require_2fa_above_usd'' \<noteq> VNone
          \<and> to_decimal L (get cfg ''require_2fa_above_usd'') = Inr (Fin t)" by blast
  from delay_hours_ok_entry [OF ok(5)] obtain h where
    hrs: "get_default cfg ''delay_hours'' (VInt 24) = VInt h" and h0: "h \<noteq> 0" by blast
  have main: "\<forall>ctx projected.
       decimal_add L (daily_outflow_usd (transaction ctx)) (value_usd (transaction ctx)) =
         Inr projected \<longrightarrow>
       restrictiveness (outcome rule (velocity_evaluate L cfg ctx)) =
         (if above (value_usd (transaction ctx)) mt then 4
          else if above projected md then 4
          else if (case dth of None \<Rightarrow> False | Some t \<Rightarrow> t < value_usd (transaction ctx)) then 3
          else if (case tth of None \<Rightarrow> False | Some t \<Rightarrow> t < value_usd (transaction ctx)) then 2
          else 0)
       \<and> (\<forall>d. velocity_evaluate L cfg ctx = Inr d \<longrightarrow> int_or_none (delay_seconds d))"
  proof (intro allI impI)
    fix ctx :: PolicyContext and projected :: rat
    assume sum: "decimal_add L (daily_outflow_usd (transaction ctx))
        (value_usd (transaction ctx)) = Inr projected"
    note nf = velocity_normal_form [OF md mt dl tf hrs sum]
    have lvl: "restrictiveness (outcome rule (velocity_evaluate L cfg ctx)) =
         (if above (value_usd (transaction ctx)) mt then 4
          else if above projected md then 4
          else if (case dth of None \<Rightarrow> False | Some t \<Rightarrow> t < value_usd (transaction ctx)) then 3
          else if (case tth of None \<Rightarrow> False | Some t \<Rightarrow> t < value_usd (transaction ctx)) then 2
          else 0)"
      unfolding nf by (simp add: outcome_simps outcome_daily_block h0)
    have typed: "\<forall>d. velocity_evaluate L cfg ctx = Inr d \<longrightarrow> int_or_none (delay_seconds d)"
      unfolding nf
      by (auto simp: PolicyDecision_block_def PolicyDecision_delay_def
          PolicyDecision_require_verification_def PolicyDecision_allow_def exn_bind_def
          split: if_splits sum.splits)
    from lvl typed show "restrictiveness (outcome rule (velocity_evaluate L cfg ctx)) =
         (if above (value_usd (transaction ctx)) mt then 4
          else if above projected md then 4
          else if (case dth of None \<Rightarrow> False | Some t \<Rightarrow> t < value_usd (transaction ctx)) then 3
          else if (case tth of None \<Rightarrow> False | Some t \<Rightarrow> t < value_usd (transaction ctx)) then 2
          else 0)
       \<and> (\<forall>d. velocity_evaluate L cfg ctx = Inr d \<longrightarrow> int_or_none (delay_seconds d))" ..
  qed
  show ?thesis
    by (rule exI [where x = md], rule exI [where x = mt], rule exI [where x = dth],
        rule exI [where x = tth], rule main)
qed

text \<open>
  The verdict of a list of decisions is the greatest level that one of them asks for, and
  it is the decision of the aggregation.
\<close>

lemma restrictiveness_le_4: "restrictiveness d \<le> 4"
  by (cases d) simp_all

lemma verdict_snoc_level:
  "restrictiveness (verdict (ds @ [x])) =
     max (restrictiveness (verdict ds)) (restrictiveness (asks x))"
  unfolding verdict_snoc asks_def
  by (cases "verdict ds") (simp_all add: kinds_exclusive)

lemma verdict_level:
  "restrictiveness (verdict ds) = Max (insert 0 ((\<lambda>rd. restrictiveness (asks rd)) ` set ds))"
proof (induction ds rule: rev_induct)
  case Nil
  show ?case by (simp add: verdict_def)
next
  case (snoc x ds)
  have "Max (insert 0 ((\<lambda>rd. restrictiveness (asks rd)) ` set (ds @ [x]))) =
      Max (insert (restrictiveness (asks x))
             (insert 0 ((\<lambda>rd. restrictiveness (asks rd)) ` set ds)))"
    by (simp add: insert_commute)
  also have "\<dots> = max (restrictiveness (asks x))
      (Max (insert 0 ((\<lambda>rd. restrictiveness (asks rd)) ` set ds)))"
    by (rule Max_insert) simp_all
  finally show ?case
    unfolding verdict_snoc_level snoc.IH by (simp add: max.commute)
qed

lemma verdict_ge:
  "(k \<le> restrictiveness (verdict ds)) =
     (k = 0 \<or> (\<exists>rd\<in>set ds. k \<le> restrictiveness (asks rd)))"
proof -
  have "(k \<le> Max (insert 0 ((\<lambda>rd. restrictiveness (asks rd)) ` set ds))) =
      (\<exists>a\<in>insert 0 ((\<lambda>rd. restrictiveness (asks rd)) ` set ds). k \<le> a)"
    by (rule Max_ge_iff) simp_all
  then show ?thesis unfolding verdict_level by auto
qed

lemma aggregate_verdict:
  assumes typed: "\<forall>rd\<in>set ds. int_or_none (delay_seconds (snd rd))"
  shows "\<exists>res. aggregate_decisions ds = Inr res \<and> decision res = verdict ds"
proof -
  from agg_loop_state [OF typed] obtain st where
    st: "agg_loop agg_init ds = Inr st" and inv: "agg_inv ds st" by blast
  from inv have fd: "final_decision st = verdict ds" by (simp add: agg_inv_def)
  show ?thesis
    unfolding aggregate_decisions_def st by (simp add: post_init_def fd)
qed

text \<open>
  The decision of \<open>execute\<close> is the greatest level that the evaluation of a rule asks for,
  a rule that raises counting as a block.
\<close>

lemma outcome_Inr: "e = Inr d \<Longrightarrow> outcome p e = asks (p, projr e)"
  by (simp add: outcome_def)

lemma execute_level:
  assumes nd: "\<not> duress_mode_active tx"
    and typed: "\<forall>p\<in>set rules. \<forall>d. evaluate L p (context_of tx) = Inr d \<longrightarrow>
                  int_or_none (delay_seconds d)"
  shows "\<exists>res. execute L rules tx = Inr res
           \<and> (\<forall>k. (k \<le> restrictiveness (decision res)) =
                 (k = 0 \<or> (\<exists>p\<in>set rules.
                    k \<le> restrictiveness (outcome p (evaluate L p (context_of tx))))))"
proof (cases "\<exists>p\<in>set rules. isl (evaluate L p (context_of tx))")
  case True
  from split_list_first_prop [OF True] obtain pre f post where
    sp: "rules = pre @ f # post" and bad: "isl (evaluate L f (context_of tx))"
    and good: "\<forall>p\<in>set pre. \<not> isl (evaluate L p (context_of tx))" by blast
  from bad obtain e where e: "evaluate L f (context_of tx) = Inl e"
    by (cases "evaluate L f (context_of tx)") simp_all
  have ok: "\<forall>p\<in>set pre. \<exists>d. evaluate L p (context_of tx) = Inr d"
  proof
    fix p assume "p \<in> set pre"
    with good have "\<not> isl (evaluate L p (context_of tx))" by blast
    then show "\<exists>d. evaluate L p (context_of tx) = Inr d"
      by (cases "evaluate L p (context_of tx)") simp_all
  qed
  let ?res = "\<lparr>decision = BLOCK, blocking_rule = Some (name f @ '' (evaluation error)''),
          result_delay_seconds = VNone, result_warnings = [], result_required_actions = [],
          rules_evaluated = map name pre @ [name f]\<rparr>"
  have ex: "execute L rules tx = Inr ?res"
    unfolding sp by (rule execute_first_error [OF nd ok e])
  have fo: "restrictiveness (outcome f (evaluate L f (context_of tx))) = 4"
    by (simp add: e outcome_def)
  have fin: "f \<in> set rules" by (simp add: sp)
  have lv: "(k \<le> restrictiveness (decision ?res)) =
                 (k = 0 \<or> (\<exists>p\<in>set rules.
                    k \<le> restrictiveness (outcome p (evaluate L p (context_of tx)))))" for k
  proof
    assume "k \<le> restrictiveness (decision ?res)"
    then have "k \<le> restrictiveness (outcome f (evaluate L f (context_of tx)))"
      unfolding fo by simp
    with fin show "k = 0 \<or> (\<exists>p\<in>set rules.
                    k \<le> restrictiveness (outcome p (evaluate L p (context_of tx))))" by blast
  next
    assume a: "k = 0 \<or> (\<exists>p\<in>set rules.
                    k \<le> restrictiveness (outcome p (evaluate L p (context_of tx))))"
    have "k \<le> 4"
    proof (cases "k = 0")
      case True
      then show ?thesis by simp
    next
      case False
      with a obtain p where "k \<le> restrictiveness (outcome p (evaluate L p (context_of tx)))"
        by blast
      also have "\<dots> \<le> 4" by (rule restrictiveness_le_4)
      finally show ?thesis .
    qed
    then show "k \<le> restrictiveness (decision ?res)" by simp
  qed
  from ex lv show ?thesis by blast
next
  case False
  let ?ds = "map (\<lambda>p. (p, projr (evaluate L p (context_of tx)))) rules"
  have ok: "\<forall>p\<in>set rules. \<exists>d. evaluate L p (context_of tx) = Inr d"
  proof
    fix p assume "p \<in> set rules"
    with False have "\<not> isl (evaluate L p (context_of tx))" by blast
    then show "\<exists>d. evaluate L p (context_of tx) = Inr d"
      by (cases "evaluate L p (context_of tx)") simp_all
  qed
  have ex: "execute L rules tx = aggregate_decisions ?ds"
    by (rule execute_all_ok [OF nd ok])
  have td: "\<forall>rd\<in>set ?ds. int_or_none (delay_seconds (snd rd))"
  proof
    fix rd assume "rd \<in> set ?ds"
    then obtain p where p: "p \<in> set rules"
      and rd: "rd = (p, projr (evaluate L p (context_of tx)))" by auto
    from ok p obtain d where d: "evaluate L p (context_of tx) = Inr d" by blast
    from typed p d have "int_or_none (delay_seconds d)" by blast
    then show "int_or_none (delay_seconds (snd rd))" by (simp add: rd d)
  qed
  from aggregate_verdict [OF td] obtain res where
    res: "aggregate_decisions ?ds = Inr res" and dec: "decision res = verdict ?ds" by blast
  have lv: "(k \<le> restrictiveness (decision res)) =
                 (k = 0 \<or> (\<exists>p\<in>set rules.
                    k \<le> restrictiveness (outcome p (evaluate L p (context_of tx)))))" for k
  proof -
    have "(\<exists>rd\<in>set ?ds. k \<le> restrictiveness (asks rd)) =
        (\<exists>p\<in>set rules. k \<le> restrictiveness (outcome p (evaluate L p (context_of tx))))"
    proof
      assume "\<exists>rd\<in>set ?ds. k \<le> restrictiveness (asks rd)"
      then obtain p where p: "p \<in> set rules"
        and k: "k \<le> restrictiveness (asks (p, projr (evaluate L p (context_of tx))))" by auto
      from ok p obtain d where d: "evaluate L p (context_of tx) = Inr d" by blast
      from k have "k \<le> restrictiveness (outcome p (evaluate L p (context_of tx)))"
        unfolding outcome_Inr [OF d] .
      with p show "\<exists>p\<in>set rules.
          k \<le> restrictiveness (outcome p (evaluate L p (context_of tx)))" by blast
    next
      assume "\<exists>p\<in>set rules. k \<le> restrictiveness (outcome p (evaluate L p (context_of tx)))"
      then obtain p where p: "p \<in> set rules"
        and k: "k \<le> restrictiveness (outcome p (evaluate L p (context_of tx)))" by blast
      from ok p obtain d where d: "evaluate L p (context_of tx) = Inr d" by blast
      from k have "k \<le> restrictiveness (asks (p, projr (evaluate L p (context_of tx))))"
        unfolding outcome_Inr [OF d] .
      moreover from p have "(p, projr (evaluate L p (context_of tx))) \<in> set ?ds" by auto
      ultimately show "\<exists>rd\<in>set ?ds. k \<le> restrictiveness (asks rd)" by blast
    qed
    then show ?thesis unfolding dec verdict_ge by simp
  qed
  from ex res lv show ?thesis by simp
qed

lemma above_mono: "x \<le> y \<Longrightarrow> above x d \<Longrightarrow> above y d"
  by (cases d) (simp_all add: above_def)

text \<open>A greater amount does not lower what a well-configured rule asks for.\<close>

lemma rule_monotone:
  assumes wc: "well_configured p"
    and le: "value_usd tx \<le> v"
    and sum: "decimal_add L (daily_outflow_usd tx) (value_usd tx) = Inr projected"
    and sum': "decimal_add L (daily_outflow_usd tx) v = Inr projected'"
    and ple: "projected \<le> projected'"
  shows "restrictiveness (outcome p (evaluate L p (context_of tx))) \<le>
         restrictiveness (outcome p (evaluate L p (context_of (tx\<lparr>value_usd := v\<rparr>))))"
    and "\<forall>d. evaluate L p (context_of tx) = Inr d \<longrightarrow> int_or_none (delay_seconds d)"
    and "\<forall>d. evaluate L p (context_of (tx\<lparr>value_usd := v\<rparr>)) = Inr d \<longrightarrow>
           int_or_none (delay_seconds d)"
proof -
  let ?c = "context_of tx"
  let ?c' = "context_of (tx\<lparr>value_usd := v\<rparr>)"
  have all: "restrictiveness (outcome p (evaluate L p ?c)) \<le>
         restrictiveness (outcome p (evaluate L p ?c'))
      \<and> (\<forall>d. evaluate L p ?c = Inr d \<longrightarrow> int_or_none (delay_seconds d))
      \<and> (\<forall>d. evaluate L p ?c' = Inr d \<longrightarrow> int_or_none (delay_seconds d))"
  proof (cases "rule_class p")
    case VelocityRule
    then have ev: "evaluate L p ?c = velocity_evaluate L (config p) ?c"
      "evaluate L p ?c' = velocity_evaluate L (config p) ?c'"
      by (simp_all add: evaluate_def)
    from wc VelocityRule have ok: "limit_ok (config p) ''max_daily_usd''"
      "limit_ok (config p) ''max_per_tx_usd''"
      "threshold_ok (config p) ''delay_hours_above_usd''"
      "threshold_ok (config p) ''require_2fa_above_usd''"
      "delay_hours_ok (config p)"
      by (simp_all add: well_configured_def)
    have s1: "decimal_add L (daily_outflow_usd (transaction ?c)) (value_usd (transaction ?c)) =
        Inr projected" using sum by (simp add: context_of_def)
    have s2: "decimal_add L (daily_outflow_usd (transaction ?c')) (value_usd (transaction ?c')) =
        Inr projected'" using sum' by (simp add: context_of_def)
    have v1: "value_usd (transaction ?c) = value_usd tx" by (simp add: context_of_def)
    have v2: "value_usd (transaction ?c') = v" by (simp add: context_of_def)
    from velocity_level [OF ok, of L p] obtain md mt dth tth where
      lv: "\<forall>ctx projected.
       decimal_add L (daily_outflow_usd (transaction ctx)) (value_usd (transaction ctx)) =
         Inr projected \<longrightarrow>
       restrictiveness (outcome p (velocity_evaluate L (config p) ctx)) =
         (if above (value_usd (transaction ctx)) mt then 4
          else if above projected md then 4
          else if (case dth of None \<Rightarrow> False | Some t \<Rightarrow> t < value_usd (transaction ctx)) then 3
          else if (case tth of None \<Rightarrow> False | Some t \<Rightarrow> t < value_usd (transaction ctx)) then 2
          else 0)
       \<and> (\<forall>d. velocity_evaluate L (config p) ctx = Inr d \<longrightarrow> int_or_none (delay_seconds d))"
      by - (erule exE, erule exE, erule exE, erule exE)
    note l1 = lv [THEN spec, THEN spec, THEN mp, OF s1, unfolded v1]
    note l2 = lv [THEN spec, THEN spec, THEN mp, OF s2, unfolded v2]
    have a1: "above (value_usd tx) mt \<Longrightarrow> above v mt" by (rule above_mono [OF le])
    have a2: "above projected md \<Longrightarrow> above projected' md" by (rule above_mono [OF ple])
    have a3: "(case dth of None \<Rightarrow> False | Some t \<Rightarrow> t < value_usd tx) \<Longrightarrow>
        (case dth of None \<Rightarrow> False | Some t \<Rightarrow> t < v)"
      using le by (cases dth) simp_all
    have a4: "(case tth of None \<Rightarrow> False | Some t \<Rightarrow> t < value_usd tx) \<Longrightarrow>
        (case tth of None \<Rightarrow> False | Some t \<Rightarrow> t < v)"
      using le by (cases tth) simp_all
    have m: "restrictiveness (outcome p (velocity_evaluate L (config p) ?c)) \<le>
        restrictiveness (outcome p (velocity_evaluate L (config p) ?c'))"
      unfolding l1 [THEN conjunct1] l2 [THEN conjunct1] using a1 a2 a3 a4 by auto
    from m l1 [THEN conjunct2] l2 [THEN conjunct2] show ?thesis unfolding ev by blast
  next
    case WhitelistRule
    then have ev: "evaluate L p ?c = whitelist_evaluate (config p) ?c"
      "evaluate L p ?c' = whitelist_evaluate (config p) ?c"
      by (simp_all add: evaluate_def whitelist_value_free)
    from wc WhitelistRule have q: "quarantine_ok (config p)"
      by (simp add: well_configured_def)
    have "\<forall>d. whitelist_evaluate (config p) ?c = Inr d \<longrightarrow> int_or_none (delay_seconds d)"
      using whitelist_typed [OF q] by blast
    then show ?thesis unfolding ev by simp
  next
    case TimelockRule
    then have ev: "evaluate L p ?c = timelock_evaluate L (config p) ?c"
      "evaluate L p ?c' = timelock_evaluate L (config p) ?c"
      by (simp_all add: evaluate_def timelock_value_free)
    have "\<forall>d. timelock_evaluate L (config p) ?c = Inr d \<longrightarrow> int_or_none (delay_seconds d)"
      using timelock_typed by blast
    then show ?thesis unfolding ev by simp
  next
    case (OtherRule f)
    with wc show ?thesis by (simp add: well_configured_def)
  qed
  from all show "restrictiveness (outcome p (evaluate L p ?c)) \<le>
         restrictiveness (outcome p (evaluate L p ?c'))" by blast
  from all show "\<forall>d. evaluate L p ?c = Inr d \<longrightarrow> int_or_none (delay_seconds d)" by blast
  from all show "\<forall>d. evaluate L p ?c' = Inr d \<longrightarrow> int_or_none (delay_seconds d)" by blast
qed

text \<open>
  Claim C8, as the code has it. Take rules of the three classes of the package whose configurations
  are well formed: the limits and thresholds of the velocity rules are numbers, their
  \<open>delay_hours\<close> is absent or an integer that is not zero, and the quarantine hours of the
  whitelist rules are absent, \<open>None\<close> or an integer. Take a transaction and an amount \<open>v\<close>
  that is not less than its \<open>value_usd\<close>, such that the decimal arithmetic returns the
  projected daily total for both amounts, the second not less than the first. Then
  \<open>execute\<close> returns a result for the transaction and for the same transaction with the
  amount \<open>v\<close>, and the decision of the second is at least as restrictive as the decision of
  the first, in the order ALLOW, WARN, REQUIRE_2FA, DELAY, BLOCK.
\<close>

theorem raising_amount_monotone:
  assumes wc: "\<forall>p\<in>set rules. well_configured p"
    and le: "value_usd tx \<le> v"
    and sum: "decimal_add L (daily_outflow_usd tx) (value_usd tx) = Inr projected"
    and sum': "decimal_add L (daily_outflow_usd tx) v = Inr projected'"
    and ple: "projected \<le> projected'"
  shows "\<exists>r1 r2. execute L rules tx = Inr r1
           \<and> execute L rules (tx\<lparr>value_usd := v\<rparr>) = Inr r2
           \<and> restrictiveness (decision r1) \<le> restrictiveness (decision r2)"
proof (cases "duress_mode_active tx")
  case True
  then have "execute L rules (tx\<lparr>value_usd := v\<rparr>) = execute L rules tx"
    by (simp add: execute_def)
  moreover from True have "\<exists>r1. execute L rules tx = Inr r1" by (simp add: execute_def)
  ultimately show ?thesis by auto
next
  case False
  then have nd': "\<not> duress_mode_active (tx\<lparr>value_usd := v\<rparr>)" by simp
  have t1: "\<forall>p\<in>set rules. \<forall>d. evaluate L p (context_of tx) = Inr d \<longrightarrow>
                  int_or_none (delay_seconds d)"
  proof
    fix p assume "p \<in> set rules"
    with wc have "well_configured p" by blast
    from rule_monotone(2) [OF this le sum sum' ple]
    show "\<forall>d. evaluate L p (context_of tx) = Inr d \<longrightarrow> int_or_none (delay_seconds d)" .
  qed
  have t2: "\<forall>p\<in>set rules. \<forall>d. evaluate L p (context_of (tx\<lparr>value_usd := v\<rparr>)) = Inr d \<longrightarrow>
                  int_or_none (delay_seconds d)"
  proof
    fix p assume "p \<in> set rules"
    with wc have "well_configured p" by blast
    from rule_monotone(3) [OF this le sum sum' ple]
    show "\<forall>d. evaluate L p (context_of (tx\<lparr>value_usd := v\<rparr>)) = Inr d \<longrightarrow>
            int_or_none (delay_seconds d)" .
  qed
  from execute_level [OF False t1] obtain r1 where
    r1: "execute L rules tx = Inr r1"
    and l1: "\<forall>k. (k \<le> restrictiveness (decision r1)) =
                 (k = 0 \<or> (\<exists>p\<in>set rules.
                    k \<le> restrictiveness (outcome p (evaluate L p (context_of tx)))))"
    by blast
  from execute_level [OF nd' t2] obtain r2 where
    r2: "execute L rules (tx\<lparr>value_usd := v\<rparr>) = Inr r2"
    and l2: "\<forall>k. (k \<le> restrictiveness (decision r2)) =
                 (k = 0 \<or> (\<exists>p\<in>set rules.
                    k \<le> restrictiveness
                      (outcome p (evaluate L p (context_of (tx\<lparr>value_usd := v\<rparr>))))))"
    by blast
  let ?k = "restrictiveness (decision r1)"
  have "?k = 0 \<or> (\<exists>p\<in>set rules.
      ?k \<le> restrictiveness (outcome p (evaluate L p (context_of tx))))"
    using l1 [THEN spec, of ?k] by simp
  then have "?k = 0 \<or> (\<exists>p\<in>set rules.
      ?k \<le> restrictiveness (outcome p (evaluate L p (context_of (tx\<lparr>value_usd := v\<rparr>)))))"
  proof
    assume "?k = 0"
    then show ?thesis ..
  next
    assume "\<exists>p\<in>set rules. ?k \<le> restrictiveness (outcome p (evaluate L p (context_of tx)))"
    then obtain p where p: "p \<in> set rules"
      and k: "?k \<le> restrictiveness (outcome p (evaluate L p (context_of tx)))" by blast
    from wc p have "well_configured p" by blast
    note k
    also note rule_monotone(1) [OF \<open>well_configured p\<close> le sum sum' ple]
    finally show ?thesis using p by blast
  qed
  then have "?k \<le> restrictiveness (decision r2)"
    using l2 [THEN spec, of ?k] by simp
  with r1 r2 show ?thesis by blast
qed

text \<open>
  The velocity rule and the whitelist rule of the unit tests, for a transaction of 5000 USD
  and the same transaction with 15000 USD, 10000 USD already sent today.
\<close>

theorem raising_amount_monotone_witness:
  "\<exists>r1 r2. execute example_lib [example_limited, example_whitelist] example_tx = Inr r1
     \<and> execute example_lib [example_limited, example_whitelist]
         (example_tx\<lparr>value_usd := 15000\<rparr>) = Inr r2
     \<and> restrictiveness (decision r1) \<le> restrictiveness (decision r2)"
proof -
  have wc: "\<forall>p\<in>set [example_limited, example_whitelist]. well_configured p"
    by (simp add: well_configured_def example_limited_def example_whitelist_def
        example_limits_def limit_ok_def threshold_ok_def delay_hours_ok_def quarantine_ok_def)
  have le: "value_usd example_tx \<le> 15000" by (simp add: example_tx_def)
  have sum: "decimal_add example_lib (daily_outflow_usd example_tx) (value_usd example_tx) =
      Inr 15000" by (simp add: example_lib_def example_tx_def)
  have sum': "decimal_add example_lib (daily_outflow_usd example_tx) 15000 = Inr 25000"
    by (simp add: example_lib_def example_tx_def)
  have ple: "(15000::rat) \<le> 25000" by simp
  show ?thesis by (rule raising_amount_monotone [OF wc le sum sum' ple])
qed

lemma example_zero_delay_600:
  "evaluate example_lib example_zero_delay (context_of (example_tx\<lparr>value_usd := 600\<rparr>)) =
     Inr (PolicyDecision_require_verification ''2fa_required'')"
  by (simp add: evaluate_def example_zero_delay_def velocity_evaluate_def limit_of_def
      get_def get_default_def context_of_def example_tx_def example_lib_def Let_def)

lemma example_zero_delay_1500:
  "evaluate example_lib example_zero_delay (context_of (example_tx\<lparr>value_usd := 1500\<rparr>)) =
     Inr (PolicyDecision_delay (VInt 0) (DelayAbove (Fin 1000) (VInt 0)))"
  by (simp add: evaluate_def example_zero_delay_def velocity_evaluate_def limit_of_def
      get_def get_default_def context_of_def example_tx_def example_lib_def Let_def)

text \<open>
  The claim as stated fails for a velocity rule with \<open>delay_hours\<close> zero: with 2FA
  above 500 USD and a delay of zero hours above 1000 USD, a transaction of 600 USD asks for
  2FA, and one of 1500 USD gets a delay of 0 seconds, which the aggregation does not count
  as a delay: the result is ALLOW.
\<close>

theorem raising_amount_relaxes_counterexample:
  "execute example_lib [example_zero_delay] (example_tx\<lparr>value_usd := 600\<rparr>) =
     Inr \<lparr>decision = REQUIRE_2FA, blocking_rule = None, result_delay_seconds = VNone,
          result_warnings = [], result_required_actions = [''2fa_required''],
          rules_evaluated = [''Zero delay'']\<rparr>
   \<and> execute example_lib [example_zero_delay] (example_tx\<lparr>value_usd := 1500\<rparr>) =
     Inr \<lparr>decision = ALLOW, blocking_rule = None, result_delay_seconds = VNone,
          result_warnings = [], result_required_actions = [],
          rules_evaluated = [''Zero delay'']\<rparr>
   \<and> restrictiveness ALLOW < restrictiveness REQUIRE_2FA"
proof -
  have nd: "\<not> duress_mode_active (example_tx\<lparr>value_usd := 600\<rparr>)"
    "\<not> duress_mode_active (example_tx\<lparr>value_usd := 1500\<rparr>)"
    by (simp_all add: example_tx_def)
  have a: "execute example_lib [example_zero_delay] (example_tx\<lparr>value_usd := 600\<rparr>) =
     Inr \<lparr>decision = REQUIRE_2FA, blocking_rule = None, result_delay_seconds = VNone,
          result_warnings = [], result_required_actions = [''2fa_required''],
          rules_evaluated = [''Zero delay'']\<rparr>"
    unfolding execute_def if_not_P [OF nd(1)]
    by (simp add: example_zero_delay_600 aggregate_decisions_def agg_step_def agg_append_def
        agg_init_def PolicyDecision_require_verification_def post_init_def Let_def)
      (simp add: example_zero_delay_def)
  have b: "execute example_lib [example_zero_delay] (example_tx\<lparr>value_usd := 1500\<rparr>) =
     Inr \<lparr>decision = ALLOW, blocking_rule = None, result_delay_seconds = VNone,
          result_warnings = [], result_required_actions = [],
          rules_evaluated = [''Zero delay'']\<rparr>"
    unfolding execute_def if_not_P [OF nd(2)]
    by (simp add: example_zero_delay_1500 aggregate_decisions_def agg_step_def agg_append_def
        agg_init_def PolicyDecision_delay_def post_init_def Let_def)
      (simp add: example_zero_delay_def)
  have c: "restrictiveness ALLOW < restrictiveness REQUIRE_2FA" by simp
  from a b c show ?thesis by (intro conjI)
qed

end
